theory Spec2Isabelle
  imports Main "HOL-Library.Char_ord" "HOL-Library.List_Lexorder" "HOL-Library.AList"
begin

section \<open>Data model\<close>

text \<open>
  Python strings are modelled as \<^typ>\<open>string\<close>, read as sequences of characters;
  \<open><\<close> on them is the lexicographic order on character codes, which is what
  Python's comparison of two \<open>str\<close> values computes.
\<close>

text \<open>
  The \<open>tags\<close> value of a note: the source distinguishes a list from any other value
  with \<open>isinstance(tags, list)\<close>.
\<close>

datatype tagsval = TagList "string list" | TagStr string

text \<open>
  One value of \<open>LocalStorage.note_index\<close>, as \<open>save_note\<close> writes it. The fields read
  with \<open>.get\<close> whose value may be missing or \<open>None\<close> are options.
\<close>

record index_entry =
  title :: string
  file_path :: string
  team :: string
  folder :: string
  created :: "string option"
  modified :: "string option"
  tags :: "tagsval option"
  format :: string
  saved_at :: string

text \<open>
  \<open>note_index\<close> is a Python dict: keys are unique, iteration follows insertion order,
  and an assignment to an existing key keeps its position. An association list with
  \<^const>\<open>map_of\<close> for lookup and \<^const>\<open>AList.update\<close> for assignment behaves the same.
\<close>

type_synonym note_index = "(string \<times> index_entry) list"

section \<open>Local store: the modification check\<close>

text \<open>
  \<open>LocalStorage.is_note_modified\<close> (storage.py, lines 224-236). \<open>not saved_modified\<close>
  holds for \<open>None\<close> and for the empty string.
\<close>

definition is_note_modified :: "note_index \<Rightarrow> string \<Rightarrow> string \<Rightarrow> bool" where
  "is_note_modified idx note_guid modified_time =
     (case map_of idx note_guid of
        None \<Rightarrow> True
      | Some saved_info \<Rightarrow>
          (case modified saved_info of
             None \<Rightarrow> True
           | Some saved_modified \<Rightarrow>
               if saved_modified = [] then True
               else saved_modified < modified_time))"

section \<open>Strings\<close>

text \<open>The Python string methods the source calls, on character lists.\<close>

abbreviation NL :: char where "NL \<equiv> CHR 0x0A"

definition startswith :: "string \<Rightarrow> string \<Rightarrow> bool" where
  "startswith s p = (take (length p) s = p)"

definition endswith :: "string \<Rightarrow> string \<Rightarrow> bool" where
  "endswith s p = (length p \<le> length s \<and> drop (length s - length p) s = p)"

text \<open>\<open>s.split(sep)\<close> for a one-character separator: never empty, and the empty string
  gives one empty piece.\<close>

fun split_on :: "char \<Rightarrow> string \<Rightarrow> string list" where
  "split_on sep [] = [[]]"
| "split_on sep (c # cs) =
     (if c = sep then [] # split_on sep cs
      else (c # hd (split_on sep cs)) # tl (split_on sep cs))"

lemma split_on_nonempty: "split_on sep s \<noteq> []"
  by (induction s) auto

text \<open>\<open>sep.join(xs)\<close>.\<close>

fun py_join :: "string \<Rightarrow> string list \<Rightarrow> string" where
  "py_join sep [] = []"
| "py_join sep [x] = x"
| "py_join sep (x # y # ys) = x @ sep @ py_join sep (y # ys)"

text \<open>
  \<open>str.isspace\<close> on one character, for the character codes below 256: tab, newline,
  vertical tab, form feed, carriage return, the four separators 0x1C-0x1F, space,
  next-line (0x85) and no-break space (0xA0).
\<close>

definition is_space :: "char \<Rightarrow> bool" where
  "is_space c = (c \<in> set [CHR 0x09, CHR 0x0A, CHR 0x0B, CHR 0x0C, CHR 0x0D,
                           CHR 0x1C, CHR 0x1D, CHR 0x1E, CHR 0x1F, CHR 0x20,
                           CHR 0x85, CHR 0xA0])"

text \<open>\<open>s.rstrip()\<close> and \<open>s.strip(chars)\<close>.\<close>

definition rstrip :: "string \<Rightarrow> string" where
  "rstrip s = rev (dropWhile is_space (rev s))"

definition strip_chars :: "string \<Rightarrow> string \<Rightarrow> string" where
  "strip_chars chars s =
     rev (dropWhile (\<lambda>c. c \<in> set chars) (rev (dropWhile (\<lambda>c. c \<in> set chars) s)))"

text \<open>
  \<open>re.sub(r'\n{3,}', '\n\n', s)\<close>: every maximal run of three or more newlines becomes
  two newlines; shorter runs stay. \<open>collapse_from n s\<close> has seen \<open>n\<close> newlines of the
  current run.
\<close>

definition emit_run :: "nat \<Rightarrow> string" where
  "emit_run n = (if 3 \<le> n then [NL, NL] else replicate n NL)"

fun collapse_from :: "nat \<Rightarrow> string \<Rightarrow> string" where
  "collapse_from n [] = emit_run n"
| "collapse_from n (c # cs) =
     (if c = NL then collapse_from (Suc n) cs
      else emit_run n @ c # collapse_from 0 cs)"

definition sub_newline_runs :: "string \<Rightarrow> string" where
  "sub_newline_runs s = collapse_from 0 s"

text \<open>
  \<open>re.sub(pat, rep, s)\<close> for a pattern without metacharacters: the leftmost occurrence
  is replaced and the scan goes on behind it.
\<close>

fun sub_literal :: "string \<Rightarrow> string \<Rightarrow> string \<Rightarrow> string" where
  "sub_literal pat rep [] = []"
| "sub_literal pat rep (c # cs) =
     (if pat \<noteq> [] \<and> take (length pat) (c # cs) = pat
      then rep @ sub_literal pat rep (drop (length pat) (c # cs))
      else c # sub_literal pat rep cs)"

section \<open>Content transformer\<close>

text \<open>
  The note dictionary the downloader and the converter pass around. A field is \<open>None\<close>
  when the key is absent; the fields carry the prefix \<open>n_\<close> to keep them apart from the
  index entry's. Values are typed as the modules' own test data has them: strings, and
  for the tags a list of strings or a single string.
\<close>

record note_dict =
  n_docGuid :: "string option"
  n_guid :: "string option"
  n_title :: "string option"
  n_dataModified :: "string option"
  n_modified :: "string option"
  n_created :: "string option"
  n_tags :: "tagsval option"
  n_author :: "string option"

text \<open>The configuration keys the three modules read.\<close>

record config =
  extract_images :: bool
  add_metadata :: bool
  convert_to_markdown :: bool
  incremental :: bool
  exclude_folders :: "string list"
  download_attachments :: bool

text \<open>Truth value of \<open>d.get(k)\<close> for a string or tags value.\<close>

definition truthy :: "string option \<Rightarrow> bool" where
  "truthy v = (case v of None \<Rightarrow> False | Some s \<Rightarrow> s \<noteq> [])"

definition truthy_tags :: "tagsval option \<Rightarrow> bool" where
  "truthy_tags v =
     (case v of None \<Rightarrow> False | Some (TagList l) \<Rightarrow> l \<noteq> [] | Some (TagStr s) \<Rightarrow> s \<noteq> [])"

text \<open>\<open>note_info.get('title', 'Untitled')\<close>.\<close>

definition title_or_untitled :: "note_dict \<Rightarrow> string" where
  "title_or_untitled note_info =
     (case n_title note_info of None \<Rightarrow> ''Untitled'' | Some t \<Rightarrow> t)"

definition tags_line :: "tagsval \<Rightarrow> string" where
  "tags_line t =
     (case t of
        TagList l \<Rightarrow> ''tags: ['' @ py_join '', '' l @ '']''
      | TagStr s \<Rightarrow> ''tags: ['' @ s @ '']'')"

text \<open>
  \<open>HTMLToMarkdownConverter._add_metadata\<close> (converter.py, lines 193-218);
  \<open>html_metadata\<close> is its local list \<open>metadata\<close>.
\<close>

definition html_metadata :: "note_dict \<Rightarrow> string list" where
  "html_metadata note_info =
     [''---'', ''title: '' @ title_or_untitled note_info]
     @ (if truthy (n_created note_info) then [''created: '' @ the (n_created note_info)] else [])
     @ (if truthy (n_modified note_info) then [''modified: '' @ the (n_modified note_info)] else [])
     @ (if truthy_tags (n_tags note_info) then [tags_line (the (n_tags note_info))] else [])
     @ (if truthy (n_author note_info) then [''author: '' @ the (n_author note_info)] else [])
     @ [''---'', []]"

definition html_add_metadata :: "string \<Rightarrow> note_dict \<Rightarrow> string" where
  "html_add_metadata markdown_content note_info =
     py_join [NL] (html_metadata note_info) @ markdown_content"

text \<open>
  \<open>DirectMarkdownHandler._add_metadata\<close> (converter.py, lines 285-312): the same block
  without the author line, behind a check for an existing block.
\<close>

definition direct_metadata :: "note_dict \<Rightarrow> string list" where
  "direct_metadata note_info =
     [''---'', ''title: '' @ title_or_untitled note_info]
     @ (if truthy (n_created note_info) then [''created: '' @ the (n_created note_info)] else [])
     @ (if truthy (n_modified note_info) then [''modified: '' @ the (n_modified note_info)] else [])
     @ (if truthy_tags (n_tags note_info) then [tags_line (the (n_tags note_info))] else [])
     @ [''---'', []]"

definition direct_add_metadata :: "string \<Rightarrow> note_dict \<Rightarrow> string" where
  "direct_add_metadata markdown_content note_info =
     (if startswith markdown_content ''---\<newline>'' then markdown_content
      else py_join [NL] (direct_metadata note_info) @ markdown_content)"

text \<open>\<open>HTMLToMarkdownConverter._postprocess_markdown\<close> (converter.py, lines 173-191).\<close>

definition postprocess_markdown :: "string \<Rightarrow> string" where
  "postprocess_markdown markdown_content =
     (let s1 = sub_newline_runs markdown_content;
          s2 = sub_literal ''```\<newline>\<newline>'' ''```\<newline>'' s1;
          s3 = sub_literal ''\<newline>\<newline>```'' ''\<newline>```'' s2;
          lines = map rstrip (split_on NL s3);
          s4 = py_join [NL] lines
      in if endswith s4 [NL] then s4 else s4 @ [NL])"

text \<open>
  What the claims about the normalised text speak of: three newline characters in a
  row (two blank lines in a row, seen from inside the text), and the number of newlines
  a text starts with.
\<close>

fun has_nl_run3 :: "string \<Rightarrow> bool" where
  "has_nl_run3 (a # b # c # cs) =
     ((a = NL \<and> b = NL \<and> c = NL) \<or> has_nl_run3 (b # c # cs))"
| "has_nl_run3 _ = False"

definition lead :: "string \<Rightarrow> nat" where
  "lead s = length (takeWhile (\<lambda>c. c = NL) s)"

text \<open>
  An extracted resource: the dictionary \<open>_extract_base64_image\<close> returns (type
  \<open>'base64'\<close>) or the one \<open>_preprocess_html\<close> builds for a bundled image (type
  \<open>'resource'\<close>).
\<close>

datatype resource =
    Base64Image (res_filename: string) (res_data: string) (res_image_type: string)
  | LocalResource (res_filename: string) (res_original_src: string)

text \<open>What the source can raise: a missing dictionary key, or an exception of a library
  call, or an error of the operating system.\<close>

datatype error = KeyError string | LibraryError string | OSError string

text \<open>
  The library functions \<open>_extract_base64_image\<close> calls, as parameters: the character
  class \<open>\w\<close> of \<open>re\<close>, \<open>base64.b64decode\<close> (\<open>None\<close> when it raises) and
  \<open>hashlib.md5(...).hexdigest()\<close>.
\<close>

record pylib =
  re_word :: "char \<Rightarrow> bool"
  b64decode :: "string \<Rightarrow> string option"
  md5_hexdigest :: "string \<Rightarrow> string"

text \<open>
  \<open>re.match(r'data:image/(\w+);base64,(.+)', data_uri)\<close>, giving the two groups. The
  first group is greedy and backtracks: the longest run of word characters after which
  \<open>;base64,\<close> and at least one character other than a newline follow. The second group
  runs to the first newline.
\<close>

definition match_data_uri :: "(char \<Rightarrow> bool) \<Rightarrow> string \<Rightarrow> (string \<times> string) option" where
  "match_data_uri w data_uri =
     (if startswith data_uri ''data:image/'' then
        (let rest = drop (length ''data:image/'') data_uri;
             n = length (takeWhile w rest);
             payload = (\<lambda>k. takeWhile (\<lambda>c. c \<noteq> NL) (drop (k + length '';base64,'') rest))
         in map_option (\<lambda>k. (take k rest, payload k))
              (find (\<lambda>k. startswith (drop k rest) '';base64,'' \<and> payload k \<noteq> [])
                    (rev [1..<Suc n])))
      else None)"

text \<open>\<open>HTMLToMarkdownConverter._extract_base64_image\<close> (converter.py, lines 143-171).\<close>

definition extract_base64_image :: "pylib \<Rightarrow> string \<Rightarrow> resource option" where
  "extract_base64_image L data_uri =
     (case match_data_uri (re_word L) data_uri of
        None \<Rightarrow> None
      | Some (image_type, base64_data) \<Rightarrow>
          (case b64decode L base64_data of
             None \<Rightarrow> None
           | Some image_data \<Rightarrow>
               Some (Base64Image
                      (''image_'' @ take 8 (md5_hexdigest L image_data) @ ''.'' @ image_type)
                      image_data image_type)))"

text \<open>
  An \<open>HTMLToMarkdownConverter\<close>. \<open>_preprocess_html\<close> works on a BeautifulSoup tree and
  \<open>h2t.handle\<close> is html2text: both are parameters that return a value or raise. The
  sentence the fallback document carries lies outside the 8-bit characters and is a
  parameter too.
\<close>

record html_converter =
  conv_add_metadata :: bool
  preprocess_html :: "string \<Rightarrow> string list \<Rightarrow> error + (string \<times> resource list)"
  h2t_handle :: "string \<Rightarrow> error + string"
  failure_notice :: string

text \<open>The body of the \<open>try\<close> in \<open>convert\<close> (converter.py, lines 48-65).\<close>

definition convert_body ::
  "html_converter \<Rightarrow> string \<Rightarrow> note_dict \<Rightarrow> string list \<Rightarrow> error + (string \<times> resource list)" where
  "convert_body cv html_content note_info resources =
     (case preprocess_html cv html_content resources of
        Inl e \<Rightarrow> Inl e
      | Inr (processed_html, extracted_resources) \<Rightarrow>
          (case h2t_handle cv processed_html of
             Inl e \<Rightarrow> Inl e
           | Inr markdown_content \<Rightarrow>
               Inr (let md = postprocess_markdown markdown_content
                    in if conv_add_metadata cv then html_add_metadata md note_info else md,
                    extracted_resources)))"

text \<open>The document the \<open>except\<close> branch returns (converter.py, line 70).\<close>

definition fallback_document :: "html_converter \<Rightarrow> note_dict \<Rightarrow> string \<Rightarrow> string" where
  "fallback_document cv note_info html_content =
     ''# '' @ title_or_untitled note_info @ ''\<newline>\<newline>'' @ failure_notice cv
     @ ''\<newline>\<newline>```html\<newline>'' @ html_content @ ''\<newline>```''"

text \<open>\<open>HTMLToMarkdownConverter.convert\<close> (converter.py, lines 36-70).\<close>

definition convert ::
  "html_converter \<Rightarrow> string \<Rightarrow> note_dict \<Rightarrow> string list \<Rightarrow> error + (string \<times> resource list)" where
  "convert cv html_content note_info resources =
     (case convert_body cv html_content note_info resources of
        Inr r \<Rightarrow> Inr r
      | Inl e \<Rightarrow> Inr (fallback_document cv note_info html_content, []))"

section \<open>Local store: paths and files\<close>

subsection \<open>Paths\<close>

text \<open>
  A \<open>pathlib\<close> path on a POSIX system: a root (empty, one slash, or two slashes when
  the text starts with exactly two) and the components, without the empty ones and
  without single dots. Two dots and symbolic links are not resolved, as in \<open>pathlib\<close>.
\<close>

datatype path = Path (p_root: string) (p_parts: "string list")

definition path_root :: "string \<Rightarrow> string" where
  "path_root s =
     (if startswith s ''//'' \<and> \<not> startswith s ''///'' then ''//''
      else if startswith s ''/'' then ''/'' else [])"

text \<open>\<open>Path(s)\<close>.\<close>

definition parse_path :: "string \<Rightarrow> path" where
  "parse_path s =
     Path (path_root s) (filter (\<lambda>x. x \<noteq> [] \<and> x \<noteq> ''.'') (split_on CHR ''/'' s))"

text \<open>\<open>p / q\<close> for two paths: a rooted right operand replaces the left one.\<close>

definition joinpath :: "path \<Rightarrow> path \<Rightarrow> path" where
  "joinpath p q = (if p_root q \<noteq> [] then q else Path (p_root p) (p_parts p @ p_parts q))"

text \<open>\<open>p / s\<close> for a string, and \<open>Path(*segments)\<close>.\<close>

definition join_str :: "path \<Rightarrow> string \<Rightarrow> path" where
  "join_str p s = joinpath p (parse_path s)"

definition path_of_segments :: "string list \<Rightarrow> path" where
  "path_of_segments segments = foldl join_str (Path [] []) segments"

text \<open>\<open>str(p)\<close> and \<open>p.parent\<close>.\<close>

definition str_path :: "path \<Rightarrow> string" where
  "str_path p =
     (if p_root p = [] \<and> p_parts p = [] then ''.''
      else p_root p @ py_join ''/'' (p_parts p))"

definition parent :: "path \<Rightarrow> path" where
  "parent p = Path (p_root p) (butlast (p_parts p))"

text \<open>
  \<open>os.path.splitext\<close>, as \<open>genericpath._splitext\<close> computes it: the extension starts at
  the last dot, if that dot lies behind the last slash and some character of the last
  component before it is not a dot. \<open>rfind\<close> is \<open>str.rfind\<close> for one character.
\<close>

definition rfind :: "char \<Rightarrow> string \<Rightarrow> int" where
  "rfind c s =
     (if c \<in> set s then int (length s) - 1 - int (length (takeWhile (\<lambda>x. x \<noteq> c) (rev s)))
      else - 1)"

definition splitext :: "string \<Rightarrow> string \<times> string" where
  "splitext p =
     (let sepIndex = rfind CHR ''/'' p;
          dotIndex = rfind CHR ''.'' p
      in if sepIndex < dotIndex
            \<and> list_ex (\<lambda>c. c \<noteq> CHR ''.'')
                 (take (nat (dotIndex - (sepIndex + 1))) (drop (nat (sepIndex + 1)) p))
         then (take (nat dotIndex) p, drop (nat dotIndex) p)
         else (p, []))"

text \<open>\<open>str(n)\<close> for a natural number.\<close>

definition digit_char :: "nat \<Rightarrow> char" where
  "digit_char d = char_of (48 + d)"

fun str_nat :: "nat \<Rightarrow> string" where
  "str_nat n = (if n < 10 then [digit_char n] else str_nat (n div 10) @ [digit_char (n mod 10)])"

declare str_nat.simps [simp del]

text \<open>\<open>LocalStorage.sanitize_filename\<close> (storage.py, lines 57-72).\<close>

definition replace_char :: "char \<Rightarrow> char \<Rightarrow> string \<Rightarrow> string" where
  "replace_char a b s = map (\<lambda>c. if c = a then b else c) s"

definition illegal_chars :: string where
  "illegal_chars = [CHR ''<'', CHR ''>'', CHR '':'', CHR 0x22, CHR ''|'', CHR ''?'', CHR ''*'',
                    CHR 0x0D, CHR 0x0A, CHR 0x09]"

definition sanitize_filename :: "string \<Rightarrow> string" where
  "sanitize_filename filename =
     (let f1 = foldl (\<lambda>f ch. replace_char ch CHR ''_'' f) filename illegal_chars;
          f2 = strip_chars '' .'' f1;
          (name, ext) = splitext f2
      in (if 200 < length name then take 200 name else name) @ ext)"

subsection \<open>The file system\<close>

text \<open>
  The files and directories the store sees, keyed by path. The current directory and
  the root (the paths without components) always exist. The index and sync-state files
  under \<open>_metadata\<close> are not part of it.
\<close>

datatype fnode = File string | Dir

type_synonym filesystem = "(path \<times> fnode) list"

definition path_exists :: "filesystem \<Rightarrow> path \<Rightarrow> bool" where
  "path_exists fs p = (p_parts p = [] \<or> map_of fs p \<noteq> None)"

definition is_dir :: "filesystem \<Rightarrow> path \<Rightarrow> bool" where
  "is_dir fs p = (p_parts p = [] \<or> map_of fs p = Some Dir)"

definition is_file :: "filesystem \<Rightarrow> path \<Rightarrow> bool" where
  "is_file fs p = (case map_of fs p of Some (File c) \<Rightarrow> True | _ \<Rightarrow> False)"

text \<open>
  \<open>p.mkdir(parents=True, exist_ok=True)\<close>: \<open>None\<close> (an \<open>OSError\<close>, nothing created) when
  the path or one of its ancestors is a file, otherwise every missing ancestor and the
  path itself become directories.
\<close>

definition ancestors_and_self :: "path \<Rightarrow> path list" where
  "ancestors_and_self p =
     map (\<lambda>k. Path (p_root p) (take k (p_parts p))) [1..<Suc (length (p_parts p))]"

definition mkdir_parents :: "filesystem \<Rightarrow> path \<Rightarrow> filesystem option" where
  "mkdir_parents fs p =
     (if list_ex (is_file fs) (ancestors_and_self p) then None
      else Some (foldl (\<lambda>f a. if map_of f a = None then f @ [(a, Dir)] else f)
                   fs (ancestors_and_self p)))"

text \<open>\<open>p.mkdir(exist_ok=True)\<close>: the parent must be a directory.\<close>

definition mkdir_exist_ok :: "filesystem \<Rightarrow> path \<Rightarrow> filesystem option" where
  "mkdir_exist_ok fs p =
     (if is_dir fs p then Some fs
      else if path_exists fs p then None
      else if is_dir fs (parent p) then Some (fs @ [(p, Dir)])
      else None)"

text \<open>
  \<open>open(p, 'w')\<close> followed by \<open>write\<close>: \<open>None\<close> (an \<open>OSError\<close>) when the path is a
  directory or its parent is none; an existing file is overwritten.
\<close>

definition write_file :: "filesystem \<Rightarrow> path \<Rightarrow> string \<Rightarrow> filesystem option" where
  "write_file fs p content =
     (if is_dir fs p \<or> \<not> is_dir fs (parent p) then None
      else Some (AList.update p (File content) fs))"

subsection \<open>The store\<close>

record storage =
  base_path :: path
  preserve_structure :: bool
  note_index :: note_index
  files :: filesystem

text \<open>\<open>LocalStorage.get_team_path\<close> (storage.py, lines 74-77).\<close>

definition get_team_path :: "storage \<Rightarrow> string \<Rightarrow> path" where
  "get_team_path st team_name = join_str (base_path st) (sanitize_filename team_name)"

text \<open>\<open>LocalStorage.get_note_guid_by_path\<close> (storage.py, lines 114-119).\<close>

definition get_note_guid_by_path :: "note_index \<Rightarrow> string \<Rightarrow> string option" where
  "get_note_guid_by_path idx fp =
     map_option fst (find (\<lambda>(guid, info). file_path info = fp) idx)"

text \<open>
  \<open>LocalStorage.get_note_path\<close> (storage.py, lines 79-112). It creates the note's
  directory, so it returns the file system too; \<open>Inl\<close> is the \<open>OSError\<close> of \<open>mkdir\<close>.
\<close>

definition note_dir_of :: "storage \<Rightarrow> string \<Rightarrow> string \<Rightarrow> path" where
  "note_dir_of st team_name folder_path =
     (if preserve_structure st \<and> folder_path \<noteq> [] then
        joinpath (get_team_path st team_name)
          (path_of_segments
             (map sanitize_filename
                (filter (\<lambda>part. part \<noteq> []) (split_on CHR ''/'' (strip_chars ''/'' folder_path)))))
      else get_team_path st team_name)"

definition suffixed_filename :: "string \<Rightarrow> string \<Rightarrow> string" where
  "suffixed_filename filename note_guid =
     (let (name, ext) = splitext filename in name @ ''_'' @ take 8 note_guid @ ext)"

definition get_note_path ::
  "storage \<Rightarrow> string \<Rightarrow> string \<Rightarrow> string \<Rightarrow> string \<Rightarrow> error + (path \<times> filesystem)" where
  "get_note_path st team_name folder_path note_title note_guid =
     (let note_dir = note_dir_of st team_name folder_path in
      case mkdir_parents (files st) note_dir of
        None \<Rightarrow> Inl (OSError ''mkdir'')
      | Some fs' \<Rightarrow>
          (let safe_title = sanitize_filename note_title;
               filename = safe_title @ ''.md'';
               file_path = join_str note_dir filename
           in if path_exists fs' file_path
                 \<and> get_note_guid_by_path (note_index st) (str_path file_path) \<noteq> Some note_guid
              then Inr (join_str note_dir (suffixed_filename filename note_guid), fs')
              else Inr (file_path, fs')))"

subsection \<open>Facts about paths\<close>

lemma split_on_append:
  "split_on c (a @ b) =
     butlast (split_on c a) @ [last (split_on c a) @ hd (split_on c b)] @ tl (split_on c b)"
proof (induction a)
  case Nil
  then show ?case using split_on_nonempty[of c b] by simp
next
  case (Cons x a)
  obtain l ls where S: "split_on c a = l # ls"
    using split_on_nonempty[of c a] by (cases "split_on c a") auto
  show ?case
  proof (cases "x = c")
    case True
    then show ?thesis using Cons S by simp
  next
    case False
    then show ?thesis using Cons S by (cases ls) auto
  qed
qed

lemma split_on_no_sep_id: "c \<notin> set e \<Longrightarrow> split_on c e = [e]"
  by (induction e) auto

lemma takeWhile_append_stop: "\<not> P c \<Longrightarrow> takeWhile P (a @ c # r) = takeWhile P a"
  by (induction a) auto

text \<open>The number of slashes a text starts with: it decides the root of its path.\<close>

definition lead_slash :: "string \<Rightarrow> nat" where
  "lead_slash s = length (takeWhile (\<lambda>c. c = CHR ''/'') s)"

lemma path_root_lead:
  "path_root s = (if lead_slash s = 2 then ''//'' else if 1 \<le> lead_slash s then ''/'' else [])"
proof (cases s)
  case Nil then show ?thesis by (simp add: path_root_def startswith_def lead_slash_def)
next
  case (Cons a t)
  show ?thesis
  proof (cases t)
    case Nil with Cons show ?thesis by (auto simp: path_root_def startswith_def lead_slash_def)
  next
    case (Cons b u)
    with \<open>s = a # t\<close> show ?thesis
      by (cases u) (auto simp: path_root_def startswith_def lead_slash_def)
  qed
qed

lemma lead_slash_stop: "c \<noteq> CHR ''/'' \<Longrightarrow> lead_slash (a @ c # r) = lead_slash a"
  by (simp add: lead_slash_def takeWhile_append_stop)

lemma rfind_in:
  assumes "c \<in> set s"
  obtains a b where "s = a @ c # b" "c \<notin> set b" "rfind c s = int (length a)"
proof -
  from assms have "c \<in> set (rev s)" by simp
  then obtain ys zs where r: "rev s = ys @ c # zs" and n: "c \<notin> set ys"
    by (meson split_list_first)
  have "takeWhile (\<lambda>x. x \<noteq> c) ys = ys" using n by (induction ys) auto
  then have tw: "takeWhile (\<lambda>x. x \<noteq> c) (rev s) = ys"
    unfolding r by (simp add: takeWhile_append_stop[where P="\<lambda>x. x \<noteq> c"])
  have s: "s = rev zs @ c # rev ys" using r by (metis rev_append rev.simps(2) rev_rev_ident append_assoc append_Cons append_Nil)
  have "length s = length ys + 1 + length zs" using r by (metis length_rev length_append length_Cons add.commute add_Suc_right Suc_eq_plus1 add.assoc)
  then have "rfind c s = int (length (rev zs))"
    using assms tw by (simp add: rfind_def)
  with s n show ?thesis using that[of "rev zs" "rev ys"] by simp
qed

lemma rfind_notin: "c \<notin> set s \<Longrightarrow> rfind c s = - 1"
  by (simp add: rfind_def)

lemma splitext_append: "fst (splitext p) @ snd (splitext p) = p"
  by (simp add: splitext_def Let_def)

lemma splitext_ext:
  "snd (splitext p) = [] \<or> (hd (snd (splitext p)) = CHR ''.'' \<and> CHR ''/'' \<notin> set (snd (splitext p)))"
proof (cases "rfind CHR ''/'' p < rfind CHR ''.'' p
     \<and> list_ex (\<lambda>c. c \<noteq> CHR ''.'')
          (take (nat (rfind CHR ''.'' p - (rfind CHR ''/'' p + 1))) (drop (nat (rfind CHR ''/'' p + 1)) p))")
  case False
  then show ?thesis by (auto simp: splitext_def Let_def)
next
  case True
  then have lt: "rfind CHR ''/'' p < rfind CHR ''.'' p" by simp
  have din: "CHR ''.'' \<in> set p"
  proof (rule ccontr)
    assume "CHR ''.'' \<notin> set p"
    then have "rfind CHR ''.'' p = - 1" by (rule rfind_notin)
    moreover have "- 1 \<le> rfind CHR ''/'' p"
      using length_takeWhile_le[of "\<lambda>x. x \<noteq> CHR ''/''" "rev p"] by (simp add: rfind_def)
    ultimately show False using lt by simp
  qed
  then obtain a b where d: "p = a @ CHR ''.'' # b" "rfind CHR ''.'' p = int (length a)"
    by (rule rfind_in)
  have ext: "snd (splitext p) = CHR ''.'' # b"
    using True d by (simp add: splitext_def Let_def)
  have "CHR ''/'' \<notin> set (CHR ''.'' # b)"
  proof (cases "CHR ''/'' \<in> set p")
    case False
    then show ?thesis using d(1) by auto
  next
    case True
    then obtain a' b' where s: "p = a' @ CHR ''/'' # b'" "CHR ''/'' \<notin> set b'"
      "rfind CHR ''/'' p = int (length a')"
      by (rule rfind_in)
    have "length a' < length a" using lt s(3) d(2) by simp
    then have la: "Suc (length a') \<le> length a" by simp
    have "b' = drop (Suc (length a')) p" using s(1) by simp
    also have "\<dots> = drop (Suc (length a')) a @ CHR ''.'' # b" using d(1) la by simp
    finally have "set (CHR ''.'' # b) \<subseteq> set b'" by auto
    then show ?thesis using s(2) by blast
  qed
  with ext show ?thesis by simp
qed


text \<open>The components a path keeps.\<close>

abbreviation keeps :: "string \<Rightarrow> bool" where
  "keeps x \<equiv> (x \<noteq> [] \<and> x \<noteq> ''.'')"

lemma parse_path_alt:
  "parse_path s = Path (path_root s) (filter keeps (split_on CHR ''/'' s))"
  by (simp add: parse_path_def)

lemma last_split_append_no_sep:
  "c \<notin> set e \<Longrightarrow> split_on c (a @ e) = butlast (split_on c a) @ [last (split_on c a) @ e]"
  by (simp add: split_on_append split_on_no_sep_id)

lemma path_root_insert:
  "c \<noteq> CHR ''/'' \<Longrightarrow> path_root (a @ c # r) = path_root (a @ [c])"
  by (simp add: path_root_lead lead_slash_stop)

lemma joinpath_neq:
  assumes "p_root q = p_root q'" "p_parts q \<noteq> p_parts q'"
  shows "joinpath d q \<noteq> joinpath d q'"
  using assms by (cases q; cases q') (auto simp: joinpath_def)

lemma join_str_insert_inj:
  assumes e: "CHR ''/'' \<notin> set ext" and u: "CHR ''/'' \<notin> set u" and v: "CHR ''/'' \<notin> set v"
    and ne: "u \<noteq> v"
  shows "join_str d (name @ CHR ''_'' # u @ ext) \<noteq> join_str d (name @ CHR ''_'' # v @ ext)"
proof -
  let ?B = "butlast (split_on CHR ''/'' name)"
  let ?x = "last (split_on CHR ''/'' name)"
  have su: "split_on CHR ''/'' (name @ CHR ''_'' # u @ ext) = ?B @ [?x @ CHR ''_'' # u @ ext]"
    using last_split_append_no_sep[of "CHR ''/''" "CHR ''_'' # u @ ext" name] e u by simp
  have sv: "split_on CHR ''/'' (name @ CHR ''_'' # v @ ext) = ?B @ [?x @ CHR ''_'' # v @ ext]"
    using last_split_append_no_sep[of "CHR ''/''" "CHR ''_'' # v @ ext" name] e v by simp
  have ku: "keeps (?x @ CHR ''_'' # u @ ext)" and kv: "keeps (?x @ CHR ''_'' # v @ ext)"
    by (auto simp: append_eq_Cons_conv)
  have pu: "p_parts (parse_path (name @ CHR ''_'' # u @ ext)) = filter keeps ?B @ [?x @ CHR ''_'' # u @ ext]"
    unfolding parse_path_alt su using ku by simp
  have pv: "p_parts (parse_path (name @ CHR ''_'' # v @ ext)) = filter keeps ?B @ [?x @ CHR ''_'' # v @ ext]"
    unfolding parse_path_alt sv using kv by simp
  have r: "p_root (parse_path (name @ CHR ''_'' # u @ ext)) = p_root (parse_path (name @ CHR ''_'' # v @ ext))"
    unfolding parse_path_alt
    using path_root_insert[of "CHR ''_''" name "u @ ext"] path_root_insert[of "CHR ''_''" name "v @ ext"]
    by simp
  show ?thesis unfolding join_str_def
    by (rule joinpath_neq[OF r]) (use pu pv ne in simp)
qed

lemma join_str_suffix_neq:
  assumes e: "CHR ''/'' \<notin> set ext" and d: "ext = [] \<or> hd ext = CHR ''.''"
    and k: "keeps (last (split_on CHR ''/'' (name @ ext)))"
  shows "join_str d (name @ CHR ''_'' # w @ ext) \<noteq> join_str d (name @ ext)"
proof -
  let ?B = "butlast (split_on CHR ''/'' name)"
  let ?x = "last (split_on CHR ''/'' name)"
  let ?W = "split_on CHR ''/'' (CHR ''_'' # w @ ext)"
  have s1: "split_on CHR ''/'' (name @ ext) = ?B @ [?x @ ext]"
    using last_split_append_no_sep[OF e] by simp
  have s2: "split_on CHR ''/'' (name @ CHR ''_'' # w @ ext) = ?B @ [?x @ hd ?W] @ tl ?W"
    using split_on_append[of "CHR ''/''" name "CHR ''_'' # w @ ext"] by simp
  have hW: "hd ?W = CHR ''_'' # hd (split_on CHR ''/'' (w @ ext))" by simp
  have k1: "keeps (?x @ ext)" using k s1 by simp
  have k2: "keeps (?x @ hd ?W)" unfolding hW by (auto simp: append_eq_Cons_conv)
  have p1: "p_parts (parse_path (name @ ext)) = filter keeps ?B @ [?x @ ext]"
    unfolding parse_path_alt s1 using k1 by simp
  have p2: "p_parts (parse_path (name @ CHR ''_'' # w @ ext))
              = filter keeps ?B @ (?x @ hd ?W) # filter keeps (tl ?W)"
    unfolding parse_path_alt s2 using k2 by simp
  have "ext \<noteq> hd ?W" unfolding hW using d by (cases ext) auto
  then have ne: "p_parts (parse_path (name @ CHR ''_'' # w @ ext)) \<noteq> p_parts (parse_path (name @ ext))"
    unfolding p1 p2 by auto
  have "path_root (name @ ext) = path_root (name @ [CHR ''_''])"
  proof (cases ext)
    case Nil
    then show ?thesis using lead_slash_stop[of "CHR ''_''" name "[]"] by (simp add: path_root_lead)
  next
    case (Cons c cs)
    with d have "c = CHR ''.''" by simp
    then show ?thesis using Cons
      by (simp add: path_root_lead lead_slash_stop)
  qed
  then have r: "p_root (parse_path (name @ CHR ''_'' # w @ ext)) = p_root (parse_path (name @ ext))"
    unfolding parse_path_alt using path_root_insert[of "CHR ''_''" name "w @ ext"] by simp
  show ?thesis unfolding join_str_def
    by (rule joinpath_neq[OF r ne])
qed

lemma digit_char_inj: "d < 10 \<Longrightarrow> e < 10 \<Longrightarrow> digit_char d = digit_char e \<Longrightarrow> d = e"
proof -
  assume a: "d < 10" "e < 10" "digit_char d = digit_char e"
  then have "of_char (char_of (48 + d)) = (of_char (char_of (48 + e)) :: nat)"
    by (simp add: digit_char_def)
  then show ?thesis using a by simp
qed

lemma digit_char_not_slash: "d < 10 \<Longrightarrow> digit_char d \<noteq> CHR ''/''"
proof
  assume a: "d < 10" "digit_char d = CHR ''/''"
  then have "of_char (char_of (48 + d)) = (of_char CHR ''/'' :: nat)"
    by (simp add: digit_char_def)
  then show False using a by simp
qed

lemma str_nat_nonempty: "str_nat n \<noteq> []"
  by (subst str_nat.simps) simp

lemma str_nat_no_slash: "CHR ''/'' \<notin> set (str_nat n)"
proof (induction n rule: str_nat.induct)
  case (1 n)
  show ?case
  proof (cases "n < 10")
    case True
    then show ?thesis using digit_char_not_slash[of n] by (subst str_nat.simps) auto
  next
    case False
    then show ?thesis using 1 digit_char_not_slash[of "n mod 10"]
      by (subst str_nat.simps) auto
  qed
qed

lemma str_nat_inj: "str_nat m = str_nat n \<Longrightarrow> m = n"
proof (induction m arbitrary: n rule: str_nat.induct)
  case (1 m)
  show ?case
  proof (cases "m < 10")
    case True
    show ?thesis
    proof (cases "n < 10")
      case True
      with \<open>m < 10\<close> "1.prems" show ?thesis
        using digit_char_inj[of m n] by (simp add: str_nat.simps[of m] str_nat.simps[of n])
    next
      case False
      with \<open>m < 10\<close> "1.prems" show ?thesis
        using str_nat_nonempty[of "n div 10"]
        by (simp add: str_nat.simps[of m] str_nat.simps[of n] Cons_eq_append_conv)
    qed
  next
    case False
    show ?thesis
    proof (cases "n < 10")
      case True
      with \<open>\<not> m < 10\<close> "1.prems" show ?thesis
        using str_nat_nonempty[of "m div 10"]
        by (simp add: str_nat.simps[of m] str_nat.simps[of n] append_eq_Cons_conv)
    next
      case False
      with \<open>\<not> m < 10\<close> "1.prems" have
        "str_nat (m div 10) = str_nat (n div 10)" "digit_char (m mod 10) = digit_char (n mod 10)"
        by (simp_all add: str_nat.simps[of m] str_nat.simps[of n])
      then have "m div 10 = n div 10" "m mod 10 = n mod 10"
        using "1.IH"[OF \<open>\<not> m < 10\<close>] digit_char_inj[of "m mod 10" "n mod 10"] by simp_all
      then show ?thesis by (metis div_mult_mod_eq)
    qed
  qed
qed

lemma join_str_counter_inj:
  assumes u: "CHR ''/'' \<notin> set u" and v: "CHR ''/'' \<notin> set v" and ne: "u \<noteq> v"
  shows "join_str d (name @ CHR ''_'' # u @ ext) \<noteq> join_str d (name @ CHR ''_'' # v @ ext)"
proof -
  let ?B = "butlast (split_on CHR ''/'' name)"
  let ?x = "last (split_on CHR ''/'' name)"
  let ?h = "hd (split_on CHR ''/'' ext)"
  let ?T = "tl (split_on CHR ''/'' ext)"
  have sp: "\<And>w. CHR ''/'' \<notin> set w \<Longrightarrow>
      split_on CHR ''/'' (name @ CHR ''_'' # w @ ext) = ?B @ [?x @ CHR ''_'' # w @ ?h] @ ?T"
  proof -
    fix w :: string assume w: "CHR ''/'' \<notin> set w"
    have "split_on CHR ''/'' (CHR ''_'' # w) = [CHR ''_'' # w]"
      using w by (simp add: split_on_no_sep_id)
    then have "split_on CHR ''/'' ((CHR ''_'' # w) @ ext) = [CHR ''_'' # w @ ?h] @ ?T"
      using split_on_append[of "CHR ''/''" "CHR ''_'' # w" ext] by simp
    then show "split_on CHR ''/'' (name @ CHR ''_'' # w @ ext) = ?B @ [?x @ CHR ''_'' # w @ ?h] @ ?T"
      using split_on_append[of "CHR ''/''" name "(CHR ''_'' # w) @ ext"] by simp
  qed
  have k: "\<And>w. keeps (?x @ CHR ''_'' # w @ ?h)"
    by (auto simp: append_eq_Cons_conv)
  have pp: "\<And>w. CHR ''/'' \<notin> set w \<Longrightarrow>
      p_parts (parse_path (name @ CHR ''_'' # w @ ext))
        = filter keeps ?B @ (?x @ CHR ''_'' # w @ ?h) # filter keeps ?T"
    unfolding parse_path_alt using sp k by simp
  have r: "p_root (parse_path (name @ CHR ''_'' # u @ ext)) = p_root (parse_path (name @ CHR ''_'' # v @ ext))"
    unfolding parse_path_alt
    using path_root_insert[of "CHR ''_''" name "u @ ext"] path_root_insert[of "CHR ''_''" name "v @ ext"]
    by simp
  show ?thesis unfolding join_str_def
    by (rule joinpath_neq[OF r]) (use pp[OF u] pp[OF v] ne in simp)
qed

lemma join_str_counter_parts:
  "p_parts (join_str d (name @ CHR ''_'' # str_nat k @ ext)) \<noteq> []"
proof -
  let ?B = "butlast (split_on CHR ''/'' name)"
  let ?x = "last (split_on CHR ''/'' name)"
  let ?h = "hd (split_on CHR ''/'' ext)"
  let ?T = "tl (split_on CHR ''/'' ext)"
  have "split_on CHR ''/'' (CHR ''_'' # str_nat k) = [CHR ''_'' # str_nat k]"
    using str_nat_no_slash by (simp add: split_on_no_sep_id)
  then have "split_on CHR ''/'' ((CHR ''_'' # str_nat k) @ ext) = [CHR ''_'' # str_nat k @ ?h] @ ?T"
    using split_on_append[of "CHR ''/''" "CHR ''_'' # str_nat k" ext] by simp
  then have "split_on CHR ''/'' (name @ CHR ''_'' # str_nat k @ ext)
       = ?B @ [?x @ CHR ''_'' # str_nat k @ ?h] @ ?T"
    using split_on_append[of "CHR ''/''" name "(CHR ''_'' # str_nat k) @ ext"] by simp
  moreover have "keeps (?x @ CHR ''_'' # str_nat k @ ?h)"
    by (auto simp: append_eq_Cons_conv)
  ultimately have "p_parts (parse_path (name @ CHR ''_'' # str_nat k @ ext)) \<noteq> []"
    unfolding parse_path_alt by simp
  then show ?thesis
    by (cases "parse_path (name @ CHR ''_'' # str_nat k @ ext)") (auto simp: join_str_def joinpath_def)
qed

subsection \<open>The numbered names of an attachment\<close>

text \<open>
  The path \<open>attachment_dir / f"{name}_{counter}{ext}"\<close> that \<open>save_attachment\<close> tries
  for a counter.
\<close>

definition candidate :: "path \<Rightarrow> string \<Rightarrow> string \<Rightarrow> nat \<Rightarrow> path" where
  "candidate attachment_dir name ext counter =
     join_str attachment_dir (name @ ''_'' @ str_nat counter @ ext)"

lemma candidate_inj: "inj (candidate d name ext)"
proof (rule injI)
  fix j k assume "candidate d name ext j = candidate d name ext k"
  then have "str_nat j = str_nat k"
    using join_str_counter_inj[of "str_nat j" "str_nat k" d name ext] str_nat_no_slash
    by (auto simp: candidate_def)
  then show "j = k" by (rule str_nat_inj)
qed

lemma finite_existing_candidates: "finite {k. path_exists fs (candidate d name ext k)}"
proof -
  have "{k. path_exists fs (candidate d name ext k)} \<subseteq> candidate d name ext -` (fst ` set fs)"
    using join_str_counter_parts[of d name k ext for k]
    by (force simp: path_exists_def candidate_def map_of_eq_None_iff)
  moreover have "finite (candidate d name ext -` (fst ` set fs))"
    by (rule finite_vimageI) (simp_all add: candidate_inj)
  ultimately show ?thesis by (rule finite_subset)
qed

text \<open>A counter beyond every numbered name that exists: the loop below stops before it.\<close>

definition loop_bound :: "filesystem \<Rightarrow> path \<Rightarrow> string \<Rightarrow> string \<Rightarrow> nat" where
  "loop_bound fs d name ext = Suc (Max (insert 0 {k. path_exists fs (candidate d name ext k)}))"

lemma loop_bound_gt: "path_exists fs (candidate d name ext k) \<Longrightarrow> k < loop_bound fs d name ext"
  unfolding loop_bound_def
  using finite_existing_candidates[of fs d name ext]
  by (simp add: less_Suc_eq_le)

text \<open>
  The loop of \<open>save_attachment\<close> (storage.py, lines 178-180). It ends because the
  numbered names are pairwise distinct and only finitely many paths exist.
\<close>

function attachment_loop ::
  "filesystem \<Rightarrow> path \<Rightarrow> string \<Rightarrow> string \<Rightarrow> path \<Rightarrow> nat \<Rightarrow> path" where
  "attachment_loop fs attachment_dir name ext attachment_path counter =
     (if path_exists fs attachment_path
      then attachment_loop fs attachment_dir name ext
             (candidate attachment_dir name ext counter) (counter + 1)
      else attachment_path)"
  by pat_completeness auto
termination
proof (relation "measure (\<lambda>(fs, d, name, ext, p, c).
          2 * (loop_bound fs d name ext - c) + (if path_exists fs p then 1 else 0))", goal_cases)
  case 1
  show ?case by simp
next
  case (2 fs d name ext p c)
  show ?case
  proof (cases "path_exists fs (candidate d name ext c)")
    case True
    then have "c < loop_bound fs d name ext" by (rule loop_bound_gt)
    with 2 True show ?thesis by simp
  next
    case False
    with 2 show ?thesis by simp
  qed
qed

declare attachment_loop.simps [simp del]

subsection \<open>Saving notes\<close>

text \<open>
  \<open>LocalStorage.save_note\<close> (storage.py, lines 121-155); \<open>now\<close> is
  \<open>datetime.now().isoformat()\<close>. A note without a title raises \<open>KeyError\<close> in the
  \<open>try\<close> and again in the handler's log line, so the error leaves the function; every
  other failure is caught and gives \<open>None\<close>. Directories made before a failed write
  stay.
\<close>

definition save_note ::
  "string \<Rightarrow> storage \<Rightarrow> string \<Rightarrow> string \<Rightarrow> note_dict \<Rightarrow> string \<Rightarrow> string
     \<Rightarrow> error + (path option \<times> storage)" where
  "save_note now st team_name folder_path note content fmt =
     (case n_title note of
        None \<Rightarrow> Inl (KeyError ''title'')
      | Some note_title \<Rightarrow>
          (case n_guid note of
             None \<Rightarrow> Inr (None, st)
           | Some note_guid \<Rightarrow>
               (case get_note_path st team_name folder_path note_title note_guid of
                  Inl e \<Rightarrow> Inr (None, st)
                | Inr (fp, fs1) \<Rightarrow>
                    (case write_file fs1 fp content of
                       None \<Rightarrow> Inr (None, st\<lparr>files := fs1\<rparr>)
                     | Some fs2 \<Rightarrow>
                         Inr (Some fp,
                              st\<lparr>files := fs2,
                                 note_index :=
                                   AList.update note_guid
                                     \<lparr> title = note_title, file_path = str_path fp,
                                       team = team_name, folder = folder_path,
                                       created = n_created note, modified = n_modified note,
                                       tags = (case n_tags note of
                                                 None \<Rightarrow> Some (TagList [])
                                               | Some v \<Rightarrow> Some v),
                                       format = fmt, saved_at = now \<rparr>
                                     (note_index st)\<rparr>)))))"

subsection \<open>Saving attachments\<close>

text \<open>\<open>LocalStorage.get_attachment_dir\<close> (storage.py, lines 157-160).\<close>

definition get_attachment_dir :: "path \<Rightarrow> path" where
  "get_attachment_dir note_path = join_str (parent note_path) ''assets''"

text \<open>
  \<open>LocalStorage.save_attachment\<close> (storage.py, lines 162-191): the path written, or
  \<open>None\<close> when \<open>mkdir\<close> or the write raised, and the store afterwards.
\<close>

definition save_attachment ::
  "storage \<Rightarrow> path \<Rightarrow> string \<Rightarrow> string \<Rightarrow> path option \<times> storage" where
  "save_attachment st note_path attachment_name content =
     (let attachment_dir = get_attachment_dir note_path in
      case mkdir_exist_ok (files st) attachment_dir of
        None \<Rightarrow> (None, st)
      | Some fs1 \<Rightarrow>
          (let safe_name = sanitize_filename attachment_name;
               attachment_path = join_str attachment_dir safe_name;
               final_path =
                 (if path_exists fs1 attachment_path
                  then (let (name, ext) = splitext safe_name
                        in attachment_loop fs1 attachment_dir name ext attachment_path 1)
                  else attachment_path)
           in case write_file fs1 final_path content of
                None \<Rightarrow> (None, st\<lparr>files := fs1\<rparr>)
              | Some fs2 \<Rightarrow> (Some final_path, st\<lparr>files := fs2\<rparr>)))"

section \<open>Synchronization engine\<close>

text \<open>An attachment descriptor of the remote source: the keys \<open>guid\<close> and \<open>name\<close>.\<close>

record attachment =
  a_guid :: "string option"
  a_name :: "string option"

text \<open>
  The remote source, whose client is not among the source files: each call is a
  function of the remote state and returns without raising. \<open>download_note\<close> gives
  \<open>None\<close> for a missing or empty answer and otherwise the value under \<open>html\<close>, if any;
  an empty string or byte string stands for an empty answer of the other calls.
\<close>

record api_client =
  get_all_folders :: "string list"
  get_all_notes_in_folder :: "string \<Rightarrow> note_dict list"
  get_note_info :: "string \<Rightarrow> note_dict option"
  download_note :: "string \<Rightarrow> string option option"
  get_note_html :: "string \<Rightarrow> string"
  get_attachments :: "string \<Rightarrow> attachment list"
  download_attachment :: "string \<Rightarrow> string \<Rightarrow> string"

text \<open>\<open>NoteDownloader.stats\<close>, without the two wall-clock times.\<close>

record stats =
  total_notes :: nat
  downloaded_notes :: nat
  failed_notes :: nat
  skipped_notes :: nat
  total_attachments :: nat
  downloaded_attachments :: nat
  failed_attachments :: nat
  total_size :: nat

text \<open>An entry of \<open>failed_items\<close>: title and identity of a note, or name and owning note of
  an attachment, with the error.\<close>

datatype failed_item =
    FailedNote string string error
  | FailedAttachment string string error

text \<open>
  A \<open>NoteDownloader\<close>. \<open>_extract_resources_from_html\<close> is a parameter: its result only
  reaches the converter's preprocessing and a log line. \<open>clock\<close> is the time
  \<open>datetime.now()\<close> returns during the run.
\<close>

record downloader =
  api_client :: api_client
  storage :: storage
  converter :: "html_converter option"
  config :: config
  kb_name :: string
  extract_resources_from_html :: "string \<Rightarrow> string list"
  clock :: string
  stats :: stats
  failed_items :: "failed_item list"

text \<open>\<open>d.get(k, default)\<close> and the two chained lookups of the downloader.\<close>

definition get_or :: "string option \<Rightarrow> string \<Rightarrow> string" where
  "get_or v d = (case v of None \<Rightarrow> d | Some s \<Rightarrow> s)"

definition guid_of :: "note_dict \<Rightarrow> string" where
  "guid_of note = (case n_docGuid note of Some g \<Rightarrow> g | None \<Rightarrow> get_or (n_guid note) [])"

definition modified_of :: "note_dict \<Rightarrow> string" where
  "modified_of note =
     (case n_dataModified note of Some m \<Rightarrow> m | None \<Rightarrow> get_or (n_modified note) [])"

text \<open>\<open>note_info.update(full_note_info)\<close>: the keys of the second dictionary win.\<close>

definition override :: "'a option \<Rightarrow> 'a option \<Rightarrow> 'a option" where
  "override old new = (case new of None \<Rightarrow> old | Some v \<Rightarrow> Some v)"

definition dict_update :: "note_dict \<Rightarrow> note_dict \<Rightarrow> note_dict" where
  "dict_update a b =
     \<lparr> n_docGuid = override (n_docGuid a) (n_docGuid b),
       n_guid = override (n_guid a) (n_guid b),
       n_title = override (n_title a) (n_title b),
       n_dataModified = override (n_dataModified a) (n_dataModified b),
       n_modified = override (n_modified a) (n_modified b),
       n_created = override (n_created a) (n_created b),
       n_tags = override (n_tags a) (n_tags b),
       n_author = override (n_author a) (n_author b) \<rparr>"

text \<open>The four assignments of \<open>_download_note\<close> that copy an identity or a marker to its
  other name (downloader.py, lines 176-183).\<close>

definition normalize_keys :: "note_dict \<Rightarrow> note_dict" where
  "normalize_keys n =
     (let n1 = (if n_docGuid n = None \<and> n_guid n \<noteq> None then n\<lparr>n_docGuid := n_guid n\<rparr> else n);
          n2 = (if n_guid n1 = None \<and> n_docGuid n1 \<noteq> None then n1\<lparr>n_guid := n_docGuid n1\<rparr> else n1);
          n3 = (if n_dataModified n2 = None \<and> n_modified n2 \<noteq> None
                then n2\<lparr>n_dataModified := n_modified n2\<rparr> else n2);
          n4 = (if n_modified n3 = None \<and> n_dataModified n3 \<noteq> None
                then n3\<lparr>n_modified := n_dataModified n3\<rparr> else n3)
      in n4)"

text \<open>An update of the counters.\<close>

definition bump :: "(stats \<Rightarrow> stats) \<Rightarrow> downloader \<Rightarrow> downloader" where
  "bump f d = d\<lparr>stats := f (stats d)\<rparr>"

text \<open>\<open>NoteDownloader._download_attachments\<close> (downloader.py, lines 276-309).\<close>

fun download_note_attachments ::
  "downloader \<Rightarrow> string \<Rightarrow> path \<Rightarrow> attachment list \<Rightarrow> downloader" where
  "download_note_attachments d note_guid note_path [] = d"
| "download_note_attachments d note_guid note_path (att # atts) =
     (let att_guid = get_or (a_guid att) [];
          att_name = get_or (a_name att) ''attachment''
      in if att_guid = [] then download_note_attachments d note_guid note_path atts
         else
           (let content = download_attachment (api_client d) note_guid att_guid
            in if content \<noteq> [] then
                 (let (r, st') = save_attachment (storage d) note_path att_name content;
                      d1 = d\<lparr>storage := st'\<rparr>;
                      d2 = bump (\<lambda>s. s\<lparr>downloaded_attachments := downloaded_attachments s + 1,
                                          total_size := total_size s + length content\<rparr>) d1
                  in download_note_attachments d2 note_guid note_path atts)
               else download_note_attachments
                      (bump (\<lambda>s. s\<lparr>failed_attachments := failed_attachments s + 1\<rparr>) d)
                      note_guid note_path atts))"

text \<open>The loop over the extracted resources (downloader.py, lines 222-229): only inline
  images with data are saved, through \<open>save_resource\<close>, which is \<open>save_attachment\<close>.\<close>

fun save_resources :: "storage \<Rightarrow> path \<Rightarrow> resource list \<Rightarrow> storage" where
  "save_resources st note_path [] = st"
| "save_resources st note_path (Base64Image fname dat ty # rs) =
     (if dat \<noteq> [] then save_resources (snd (save_attachment st note_path fname dat)) note_path rs
      else save_resources st note_path rs)"
| "save_resources st note_path (LocalResource fname src # rs) = save_resources st note_path rs"

text \<open>The end of \<open>_download_note\<close> after a successful save (downloader.py, lines
  243-253); \<open>_download_resources\<close> only logs.\<close>

definition finish_note :: "downloader \<Rightarrow> string \<Rightarrow> path \<Rightarrow> downloader" where
  "finish_note d note_guid note_path =
     (let attachments = get_attachments (api_client d) note_guid
      in if attachments \<noteq> [] \<and> download_attachments (config d) then
           download_note_attachments
             (bump (\<lambda>s. s\<lparr>total_attachments := total_attachments s + length attachments\<rparr>) d)
             note_guid note_path attachments
         else d)"

text \<open>
  The body of the \<open>try\<close> in \<open>NoteDownloader._download_note\<close> (downloader.py, lines
  164-253): \<open>Inr\<close> its return value, \<open>Inl\<close> an exception, with the downloader
  afterwards.
\<close>

definition download_note_body ::
  "downloader \<Rightarrow> string \<Rightarrow> note_dict \<Rightarrow> (error + bool) \<times> downloader" where
  "download_note_body d folder_path note_info0 =
     (let note_guid = guid_of note_info0;
          note_info1 = (case get_note_info (api_client d) note_guid of
                          None \<Rightarrow> note_info0
                        | Some full_note_info \<Rightarrow> dict_update note_info0 full_note_info);
          note_info = normalize_keys note_info1
      in case download_note (api_client d) note_guid of
           None \<Rightarrow> (Inr False, d)
         | Some note_data \<Rightarrow>
             (let html0 = get_or note_data [];
                  html_content = (if html0 = [] then get_note_html (api_client d) note_guid else html0)
              in if html_content = [] then (Inr False, d)
                 else
                   (let resources = extract_resources_from_html d html_content in
                    case (if convert_to_markdown (config d) then converter d else None) of
                      Some cv \<Rightarrow>
                        (case convert cv html_content note_info resources of
                           Inl e \<Rightarrow> (Inl e, d)
                         | Inr (markdown_content, extracted_resources) \<Rightarrow>
                             (case save_note (clock d) (storage d) (kb_name d) folder_path
                                     note_info markdown_content ''md'' of
                                Inl e \<Rightarrow> (Inl e, d)
                              | Inr (None, st1) \<Rightarrow> (Inr False, d\<lparr>storage := st1\<rparr>)
                              | Inr (Some note_path, st1) \<Rightarrow>
                                  (Inr True,
                                   finish_note
                                     (d\<lparr>storage := save_resources st1 note_path extracted_resources\<rparr>)
                                     note_guid note_path)))
                    | None \<Rightarrow>
                        (case save_note (clock d) (storage d) (kb_name d) folder_path
                                note_info html_content ''html'' of
                           Inl e \<Rightarrow> (Inl e, d)
                         | Inr (None, st1) \<Rightarrow> (Inr False, d\<lparr>storage := st1\<rparr>)
                         | Inr (Some note_path, st1) \<Rightarrow>
                             (Inr True, finish_note (d\<lparr>storage := st1\<rparr>) note_guid note_path)))))"

text \<open>\<open>NoteDownloader._download_note\<close>: the \<open>except\<close> branch turns every exception into
  \<open>False\<close>.\<close>

definition download_note_worker ::
  "downloader \<Rightarrow> string \<Rightarrow> note_dict \<Rightarrow> (error + bool) \<times> downloader" where
  "download_note_worker d folder_path note_info =
     (case download_note_body d folder_path note_info of
        (Inl e, d') \<Rightarrow> (Inr False, d')
      | (Inr b, d') \<Rightarrow> (Inr b, d'))"

text \<open>The filter of \<open>_download_folder\<close> (downloader.py, lines 110-122): the notes to
  fetch and the number of notes skipped.\<close>

fun notes_to_download :: "downloader \<Rightarrow> note_dict list \<Rightarrow> note_dict list \<times> nat" where
  "notes_to_download d [] = ([], 0)"
| "notes_to_download d (note # notes) =
     (let (keep, skipped) = notes_to_download d notes
      in if incremental (config d)
            \<and> \<not> is_note_modified (note_index (storage d)) (guid_of note) (modified_of note)
         then (keep, skipped + 1)
         else (note # keep, skipped))"

text \<open>
  The worker pool of \<open>_download_folder\<close> and the reduction of its results (downloader.py,
  lines 129-159), with the notes handled one after the other in the order of
  submission. The counters do not depend on the order of completion.
\<close>

fun run_pool :: "downloader \<Rightarrow> string \<Rightarrow> note_dict list \<Rightarrow> downloader" where
  "run_pool d folder_path [] = d"
| "run_pool d folder_path (note # notes) =
     (case download_note_worker d folder_path note of
        (Inr True, d') \<Rightarrow>
          run_pool (bump (\<lambda>s. s\<lparr>downloaded_notes := downloaded_notes s + 1\<rparr>) d') folder_path notes
      | (Inr False, d') \<Rightarrow>
          run_pool (bump (\<lambda>s. s\<lparr>failed_notes := failed_notes s + 1\<rparr>) d') folder_path notes
      | (Inl e, d') \<Rightarrow>
          run_pool
            ((bump (\<lambda>s. s\<lparr>failed_notes := failed_notes s + 1\<rparr>) d')
               \<lparr>failed_items := failed_items d'
                  @ [FailedNote (title_or_untitled note) (guid_of note) e]\<rparr>)
            folder_path notes)"

text \<open>\<open>NoteDownloader._download_folder\<close> (downloader.py, lines 94-159).\<close>

definition download_folder :: "downloader \<Rightarrow> string \<Rightarrow> downloader" where
  "download_folder d folder_path =
     (let notes = get_all_notes_in_folder (api_client d) folder_path
      in if notes = [] then d
         else
           (let d1 = bump (\<lambda>s. s\<lparr>total_notes := total_notes s + length notes\<rparr>) d;
                (keep, skipped) = notes_to_download d1 notes;
                d2 = bump (\<lambda>s. s\<lparr>skipped_notes := skipped_notes s + skipped\<rparr>) d1
            in if keep = [] then d2 else run_pool d2 folder_path keep))"

text \<open>\<open>NoteDownloader.download_all\<close> (downloader.py, lines 52-92), without the writing of
  the index and sync-state files and the report.\<close>

definition folders_to_process :: "downloader \<Rightarrow> string list \<Rightarrow> string list" where
  "folders_to_process d folders_filter =
     (let all_folders = get_all_folders (api_client d)
      in if folders_filter \<noteq> [] then filter (\<lambda>f. f \<in> set folders_filter) all_folders
         else if exclude_folders (config d) \<noteq> []
         then filter (\<lambda>f. \<not> list_ex (\<lambda>ex. startswith f ex) (exclude_folders (config d))) all_folders
         else all_folders)"

definition download_all :: "downloader \<Rightarrow> string list \<Rightarrow> downloader" where
  "download_all d folders_filter =
     (if get_all_folders (api_client d) = [] then d
      else foldl download_folder d (folders_to_process d folders_filter))"

section \<open>Properties of the modification check\<close>

text \<open>An entry used in the examples below.\<close>

definition example_entry :: "string option \<Rightarrow> index_entry" where
  "example_entry m =
     \<lparr> title = ''T'', file_path = ''out/Personal/T.md'', team = ''Personal'',
       folder = ''/'', created = None, modified = m, tags = None,
       format = ''md'', saved_at = ''2024-01-01T00:00:00'' \<rparr>"

text \<open>
  C1, as stated, fails: an entry whose stored marker is the empty string makes
  \<open>is_note_modified\<close> answer true for the empty remote marker, which is not greater.
\<close>

theorem is_note_modified_empty_marker_counterexample:
  "map_of [(''g1'', example_entry (Some []))] ''g1'' = Some (example_entry (Some []))
   \<and> modified (example_entry (Some [])) = Some []
   \<and> is_note_modified [(''g1'', example_entry (Some []))] ''g1'' []
   \<and> \<not> ([] < ([] :: string))"
  by (simp add: is_note_modified_def example_entry_def)

text \<open>
  C1 (amended): with no index entry for the identity the check answers true; with an
  entry whose stored marker \<open>M\<close> is not empty, it answers true exactly when the remote
  marker is greater than \<open>M\<close> in the string order.
\<close>

theorem is_note_modified_iff_greater:
  "(map_of idx g = None \<longrightarrow> is_note_modified idx g m) \<and>
   (map_of idx g = Some e \<and> modified e = Some M \<and> M \<noteq> [] \<longrightarrow>
      (is_note_modified idx g m \<longleftrightarrow> M < m))"
  by (simp add: is_note_modified_def)

theorem is_note_modified_iff_greater_witness:
  "map_of [(''g1'', example_entry (Some ''2024-01-01''))] ''g2'' = None
   \<and> is_note_modified [(''g1'', example_entry (Some ''2024-01-01''))] ''g2'' ''2023-01-01''
   \<and> map_of [(''g1'', example_entry (Some ''2024-01-01''))] ''g1''
       = Some (example_entry (Some ''2024-01-01''))
   \<and> modified (example_entry (Some ''2024-01-01'')) = Some ''2024-01-01''
   \<and> ''2024-01-01'' \<noteq> []
   \<and> is_note_modified [(''g1'', example_entry (Some ''2024-01-01''))] ''g1'' ''2024-01-02''
   \<and> ''2024-01-01'' < ''2024-01-02''
   \<and> \<not> is_note_modified [(''g1'', example_entry (Some ''2024-01-01''))] ''g1'' ''2024-01-01''"
  using is_note_modified_iff_greater
          [of "[(''g1'', example_entry (Some ''2024-01-01''))]" "''g2''" "''2023-01-01''"]
        is_note_modified_iff_greater
          [of "[(''g1'', example_entry (Some ''2024-01-01''))]" "''g1''" "''2024-01-02''"
              "example_entry (Some ''2024-01-01'')" "''2024-01-01''"]
        is_note_modified_iff_greater
          [of "[(''g1'', example_entry (Some ''2024-01-01''))]" "''g1''" "''2024-01-01''"
              "example_entry (Some ''2024-01-01'')" "''2024-01-01''"]
  by (simp add: example_entry_def)

section \<open>Properties of the content transformer\<close>

subsection \<open>Lines and newline runs\<close>

lemma lead_simps [simp]:
  "lead [] = 0" "lead (NL # s) = Suc (lead s)" "c \<noteq> NL \<Longrightarrow> lead (c # s) = 0"
  by (simp_all add: lead_def)

lemma run3_Cons: "has_nl_run3 (c # s) \<longleftrightarrow> has_nl_run3 s \<or> (c = NL \<and> 2 \<le> lead s)"
proof (cases s)
  case Nil then show ?thesis by simp
next
  case (Cons a t)
  show ?thesis
  proof (cases t)
    case Nil with Cons show ?thesis by (cases "a = NL") auto
  next
    case (Cons b u)
    with \<open>s = a # t\<close> show ?thesis
      by (cases "a = NL"; cases "b = NL") auto
  qed
qed

lemma lead_ge3:
  assumes "3 \<le> lead s"
  shows "has_nl_run3 s"
proof (cases s)
  case Nil with assms show ?thesis by simp
next
  case (Cons c t)
  with assms show ?thesis by (cases "c = NL") (auto simp: run3_Cons)
qed

lemma lead_replicate: "lead (replicate k NL @ s) = k + lead s"
  by (induction k) auto

lemma run3_replicate: "has_nl_run3 (replicate k NL @ s) \<longleftrightarrow> has_nl_run3 s \<or> 3 \<le> k + lead s"
  by (induction k) (auto simp: run3_Cons lead_replicate dest: lead_ge3)

lemma lead_emit_run: "lead (emit_run n @ s) = (if 3 \<le> n then 2 else n) + lead s"
  using lead_replicate[of n s] by (auto simp: emit_run_def)

lemma lead_collapse: "lead (collapse_from n s) \<le> 2"
proof (induction s arbitrary: n)
  case Nil
  then show ?case using lead_emit_run[of n "[]"] by (auto split: if_splits)
next
  case (Cons c cs)
  then show ?case using lead_emit_run[of n "c # collapse_from 0 cs"] by (auto split: if_splits)
qed

lemma run3_emit_run: "has_nl_run3 (emit_run n @ s) \<longleftrightarrow> has_nl_run3 s \<or> 3 \<le> (if 3 \<le> n then 2 else n) + lead s"
  using run3_replicate[of n s] run3_replicate[of 2 s]
  by (auto simp: emit_run_def numeral_2_eq_2)

lemma run3_collapse: "\<not> has_nl_run3 (collapse_from n s)"
proof (induction s arbitrary: n)
  case Nil
  then show ?case using run3_emit_run[of n "[]"] by (auto split: if_splits)
next
  case (Cons c cs)
  then show ?case using run3_emit_run[of n "c # collapse_from 0 cs"]
    by (auto simp: run3_Cons split: if_splits)
qed

lemma lead_sub1: "lead (sub_literal ''```\<newline>\<newline>'' ''```\<newline>'' s) \<le> lead s"
proof (induction s)
  case Nil then show ?case by simp
next
  case (Cons c cs)
  then show ?case by (cases "c = NL") auto
qed

lemma sub_literal_match:
  "pat \<noteq> [] \<Longrightarrow> sub_literal pat rep (pat @ r) = rep @ sub_literal pat rep r"
  by (cases pat) auto

lemma sub_literal_cases:
  obtains (Nil) "s = []"
  | (Match) r where "pat \<noteq> []" "s = pat @ r"
  | (Skip) c cs where "s = c # cs" "\<not> (pat \<noteq> [] \<and> take (length pat) (c # cs) = pat)"
proof (cases s)
  case Nil then show ?thesis using that by simp
next
  case (Cons c cs)
  show ?thesis
  proof (cases "pat \<noteq> [] \<and> take (length pat) (c # cs) = pat")
    case True
    then have "s = pat @ drop (length pat) s"
      using Cons by (metis append_take_drop_id)
    with True show ?thesis using that(2) by blast
  next
    case False
    with Cons show ?thesis using that(3) by blast
  qed
qed

lemma run3_sub1: "\<not> has_nl_run3 s \<Longrightarrow> \<not> has_nl_run3 (sub_literal ''```\<newline>\<newline>'' ''```\<newline>'' s)"
proof (induction "length s" arbitrary: s rule: less_induct)
  case less
  show ?case
  proof (cases s rule: sub_literal_cases[where pat = "''```\<newline>\<newline>''"])
    case Nil then show ?thesis by simp
  next
    case (Match r)
    from less.prems have nr: "\<not> has_nl_run3 r" and lr: "lead r = 0"
      unfolding Match by (auto simp: run3_Cons)
    have "\<not> has_nl_run3 (sub_literal ''```\<newline>\<newline>'' ''```\<newline>'' r)"
      using less.hyps[of r] nr Match by simp
    moreover have "lead (sub_literal ''```\<newline>\<newline>'' ''```\<newline>'' r) = 0"
      using lead_sub1[of r] lr by simp
    ultimately show ?thesis
      unfolding Match(2) sub_literal_match[OF Match(1)] by (simp add: run3_Cons)
  next
    case (Skip c cs)
    with less.prems have "\<not> has_nl_run3 cs" by (auto simp: run3_Cons)
    with less.hyps[of cs] Skip have "\<not> has_nl_run3 (sub_literal ''```\<newline>\<newline>'' ''```\<newline>'' cs)" by simp
    then show ?thesis using Skip less.prems lead_sub1[of cs] by (auto simp: run3_Cons)
  qed
qed

lemma lead_sub2: "lead (sub_literal ''\<newline>\<newline>```'' ''\<newline>```'' s) \<le> lead s"
proof (induction "length s" arbitrary: s rule: less_induct)
  case less
  show ?case
  proof (cases s rule: sub_literal_cases[where pat = "''\<newline>\<newline>```''"])
    case Nil then show ?thesis by simp
  next
    case (Match r)
    show ?thesis unfolding Match(2) sub_literal_match[OF Match(1)] by simp
  next
    case (Skip c cs)
    with less.hyps[of cs] show ?thesis by (cases "c = NL") auto
  qed
qed

lemma run3_sub2: "\<not> has_nl_run3 s \<Longrightarrow> \<not> has_nl_run3 (sub_literal ''\<newline>\<newline>```'' ''\<newline>```'' s)"
proof (induction "length s" arbitrary: s rule: less_induct)
  case less
  show ?case
  proof (cases s rule: sub_literal_cases[where pat = "''\<newline>\<newline>```''"])
    case Nil then show ?thesis by simp
  next
    case (Match r)
    from less.prems have nr: "\<not> has_nl_run3 r"
      unfolding Match by (auto simp: run3_Cons)
    have "\<not> has_nl_run3 (sub_literal ''\<newline>\<newline>```'' ''\<newline>```'' r)"
      using less.hyps[of r] nr Match by simp
    then show ?thesis
      unfolding Match(2) sub_literal_match[OF Match(1)] by (simp add: run3_Cons)
  next
    case (Skip c cs)
    with less.prems have "\<not> has_nl_run3 cs" by (auto simp: run3_Cons)
    with less.hyps[of cs] Skip have "\<not> has_nl_run3 (sub_literal ''\<newline>\<newline>```'' ''\<newline>```'' cs)" by simp
    then show ?thesis using Skip less.prems lead_sub2[of cs] by (auto simp: run3_Cons)
  qed
qed


lemma set_split: "set (split_on sep s) = insert (hd (split_on sep s)) (set (tl (split_on sep s)))"
  using split_on_nonempty[of sep s] by (cases "split_on sep s") auto

lemma split_replicate: "split_on NL (replicate k NL @ s) = replicate k [] @ split_on NL s"
  by (induction k) auto

lemma join_split: "py_join [sep] (split_on sep s) = s"
proof (induction s)
  case Nil then show ?case by simp
next
  case (Cons c cs)
  obtain l ls where eq: "split_on sep cs = l # ls"
    using split_on_nonempty[of sep cs] by (cases "split_on sep cs") auto
  with Cons show ?case by (cases ls) auto
qed

lemma lines_subset:
  assumes "hd (split_on NL t') = hd (split_on NL t)"
    and "set (tl (split_on NL t')) \<subseteq> set (tl (split_on NL t))"
  shows "set (split_on NL t') \<subseteq> set (split_on NL t)"
  using assms set_split[of NL t] set_split[of NL t'] by auto

lemma lines_sub1:
  "hd (split_on NL (sub_literal ''```\<newline>\<newline>'' ''```\<newline>'' s)) = hd (split_on NL s) \<and>
   set (tl (split_on NL (sub_literal ''```\<newline>\<newline>'' ''```\<newline>'' s))) \<subseteq> set (tl (split_on NL s))"
proof (induction "length s" arbitrary: s rule: less_induct)
  case less
  show ?case
  proof (cases s rule: sub_literal_cases[where pat = "''```\<newline>\<newline>''"])
    case Nil then show ?thesis by simp
  next
    case (Match r)
    have "set (split_on NL (sub_literal ''```\<newline>\<newline>'' ''```\<newline>'' r)) \<subseteq> set (split_on NL r)"
      using less.hyps[of r] Match lines_subset by simp
    then show ?thesis
      unfolding Match(2) sub_literal_match[OF Match(1)] by auto
  next
    case (Skip c cs)
    have ih: "hd (split_on NL (sub_literal ''```\<newline>\<newline>'' ''```\<newline>'' cs)) = hd (split_on NL cs)"
      "set (tl (split_on NL (sub_literal ''```\<newline>\<newline>'' ''```\<newline>'' cs))) \<subseteq> set (tl (split_on NL cs))"
      using less.hyps[of cs] Skip by simp_all
    show ?thesis
    proof (cases "c = NL")
      case True
      then show ?thesis using Skip lines_subset[OF ih] by auto
    next
      case False
      then show ?thesis using Skip ih by auto
    qed
  qed
qed

lemma lines_sub2:
  "hd (split_on NL (sub_literal ''\<newline>\<newline>```'' ''\<newline>```'' s)) = hd (split_on NL s) \<and>
   set (tl (split_on NL (sub_literal ''\<newline>\<newline>```'' ''\<newline>```'' s))) \<subseteq> set (tl (split_on NL s))"
proof (induction "length s" arbitrary: s rule: less_induct)
  case less
  show ?case
  proof (cases s rule: sub_literal_cases[where pat = "''\<newline>\<newline>```''"])
    case Nil then show ?thesis by simp
  next
    case (Match r)
    have "hd (split_on NL (sub_literal ''\<newline>\<newline>```'' ''\<newline>```'' r)) = hd (split_on NL r)"
      "set (tl (split_on NL (sub_literal ''\<newline>\<newline>```'' ''\<newline>```'' r))) \<subseteq> set (tl (split_on NL r))"
      using less.hyps[of r] Match by simp_all
    then show ?thesis
      unfolding Match(2) sub_literal_match[OF Match(1)] by auto
  next
    case (Skip c cs)
    have ih: "hd (split_on NL (sub_literal ''\<newline>\<newline>```'' ''\<newline>```'' cs)) = hd (split_on NL cs)"
      "set (tl (split_on NL (sub_literal ''\<newline>\<newline>```'' ''\<newline>```'' cs))) \<subseteq> set (tl (split_on NL cs))"
      using less.hyps[of cs] Skip by simp_all
    show ?thesis
    proof (cases "c = NL")
      case True
      then show ?thesis using Skip lines_subset[OF ih] by auto
    next
      case False
      then show ?thesis using Skip ih by auto
    qed
  qed
qed

lemma split_emit_run:
  "split_on NL (emit_run n @ s) = (if 3 \<le> n then [[], []] else replicate n []) @ split_on NL s"
  using split_replicate[of n s] by (auto simp: emit_run_def)

lemma lines_collapse:
  "hd (split_on NL (collapse_from n s)) = hd (split_on NL (replicate n NL @ s)) \<and>
   set (tl (split_on NL (collapse_from n s))) \<subseteq> set (tl (split_on NL (replicate n NL @ s)))"
proof (induction s arbitrary: n)
  case Nil
  show ?case
    using split_emit_run[of n "[]"] split_replicate[of n "[]"]
    by (cases n) (auto split: if_splits)
next
  case (Cons c cs)
  show ?case
  proof (cases "c = NL")
    case True
    then show ?thesis using Cons[of "Suc n"] by (simp add: replicate_app_Cons_same)
  next
    case False
    have ih: "hd (split_on NL (collapse_from 0 cs)) = hd (split_on NL cs)"
      "set (tl (split_on NL (collapse_from 0 cs))) \<subseteq> set (tl (split_on NL cs))"
      using Cons[of 0] by simp_all
    show ?thesis
      using False ih split_emit_run[of n "c # collapse_from 0 cs"] split_replicate[of n "c # cs"]
      by (cases n) (auto split: if_splits)
  qed
qed

lemma endswith_NL: "endswith s [NL] \<longleftrightarrow> s \<noteq> [] \<and> last s = NL"
  unfolding endswith_def
  by (cases s rule: rev_cases) auto

lemma lead_snoc: "s \<noteq> [] \<Longrightarrow> last s \<noteq> NL \<Longrightarrow> lead (s @ [NL]) = lead s"
proof (induction s)
  case Nil then show ?case by simp
next
  case (Cons c cs)
  then show ?case by (cases "c = NL"; cases "cs = []") auto
qed

lemma run3_snoc: "\<not> has_nl_run3 s \<Longrightarrow> \<not> endswith s [NL] \<Longrightarrow> \<not> has_nl_run3 (s @ [NL])"
proof (induction s)
  case Nil then show ?case by simp
next
  case (Cons c cs)
  show ?case
  proof (cases "cs = []")
    case True then show ?thesis by simp
  next
    case False
    with Cons.prems have l: "last cs \<noteq> NL" by (simp add: endswith_NL)
    with False have "\<not> endswith cs [NL]" by (simp add: endswith_NL)
    with Cons have "\<not> has_nl_run3 (cs @ [NL])" by (simp add: run3_Cons)
    then show ?thesis using Cons.prems(1) lead_snoc[OF False l] by (simp add: run3_Cons)
  qed
qed

lemma split_on_no_sep: "l \<in> set (split_on sep s) \<Longrightarrow> sep \<notin> set l"
proof (induction s arbitrary: l)
  case Nil then show ?case by simp
next
  case (Cons c cs)
  then show ?case
    using split_on_nonempty[of sep cs]
    by (cases "split_on sep cs") (auto split: if_splits)
qed

lemma split_on_join: "ls \<noteq> [] \<Longrightarrow> \<forall>l\<in>set ls. sep \<notin> set l \<Longrightarrow> split_on sep (py_join [sep] ls) = ls"
proof (induction "[sep]" ls rule: py_join.induct)
  case 1 then show ?case by simp
next
  case (2 x)
  then show ?case by (induction x) auto
next
  case (3 x y ys)
  then show ?case by (induction x) auto
qed

lemma split_on_snoc: "split_on sep (s @ [sep]) = split_on sep s @ [[]]"
  using split_on_nonempty[of sep]
  by (induction s) (auto simp: hd_append)

lemma rstrip_idem: "rstrip (rstrip l) = rstrip l"
  unfolding rstrip_def
  by (metis (no_types, lifting) dropWhile_eq_Nil_conv dropWhile_idem rev_rev_ident)

lemma rstrip_set: "set (rstrip l) \<subseteq> set l"
  unfolding rstrip_def using set_dropWhileD by fastforce

lemma postprocess_lines_trimmed:
  "list_all (\<lambda>l. rstrip l = l) (split_on NL (postprocess_markdown s))"
proof -
  define ls where
    "ls = map rstrip (split_on NL
            (sub_literal ''\<newline>\<newline>```'' ''\<newline>```''
              (sub_literal ''```\<newline>\<newline>'' ''```\<newline>'' (sub_newline_runs s))))"
  have ne: "ls \<noteq> []" unfolding ls_def by (simp add: split_on_nonempty)
  have nosep: "\<forall>l\<in>set ls. NL \<notin> set l"
    unfolding ls_def using split_on_no_sep rstrip_set by fastforce
  have trimmed: "\<forall>l\<in>set ls. rstrip l = l"
    unfolding ls_def by (auto simp: rstrip_idem)
  have sp: "split_on NL (py_join [NL] ls) = ls"
    using split_on_join[OF ne nosep] .
  have "postprocess_markdown s =
          (if endswith (py_join [NL] ls) [NL] then py_join [NL] ls else py_join [NL] ls @ [NL])"
    unfolding postprocess_markdown_def Let_def ls_def by simp
  moreover have "rstrip [] = []" by (simp add: rstrip_def)
  ultimately show ?thesis
    using sp trimmed by (auto simp: list_all_iff split_on_snoc)
qed

lemma lead_no_nl: "NL \<notin> set x \<Longrightarrow> lead (x @ t) = (if x = [] then lead t else 0)"
  by (cases x) auto

lemma run3_line_prefix: "NL \<notin> set x \<Longrightarrow> has_nl_run3 (x @ NL # t) \<longleftrightarrow> has_nl_run3 t \<or> 2 \<le> lead t"
proof (induction x)
  case Nil
  then show ?case by (simp add: run3_Cons)
next
  case (Cons c cs)
  then have "lead (cs @ NL # t) \<le> Suc (lead t)"
    using lead_no_nl[of cs "NL # t"] by simp
  with Cons show ?case by (auto simp: run3_Cons lead_no_nl)
qed

lemma run3_no_nl: "NL \<notin> set x \<Longrightarrow> \<not> has_nl_run3 x"
  by (induction x) (auto simp: run3_Cons lead_no_nl[of _ "[]", simplified])

lemma join_same_blank_lines:
  assumes "\<forall>l\<in>set ls. NL \<notin> set l \<and> NL \<notin> set (f l) \<and> (f l = [] \<longleftrightarrow> l = [])"
  shows "lead (py_join [NL] (map f ls)) = lead (py_join [NL] ls)
       \<and> (has_nl_run3 (py_join [NL] (map f ls)) \<longleftrightarrow> has_nl_run3 (py_join [NL] ls))"
  using assms
proof (induction "[NL]" ls rule: py_join.induct)
  case 1
  then show ?case by simp
next
  case (2 x)
  then show ?case
    using lead_no_nl[of x "[]"] lead_no_nl[of "f x" "[]"] run3_no_nl[of x] run3_no_nl[of "f x"]
    by auto
next
  case (3 x y ys)
  let ?t = "py_join [NL] (y # ys)" and ?t' = "py_join [NL] (map f (y # ys))"
  have ih: "lead ?t' = lead ?t" "has_nl_run3 ?t' \<longleftrightarrow> has_nl_run3 ?t"
    using 3 by simp_all
  have x: "NL \<notin> set x" "NL \<notin> set (f x)" "f x = [] \<longleftrightarrow> x = []"
    using 3(2) by simp_all
  have a: "py_join [NL] (x # y # ys) = x @ NL # ?t"
    and b: "py_join [NL] (map f (x # y # ys)) = f x @ NL # ?t'"
    by simp_all
  show ?case
    unfolding a b
    using x ih run3_line_prefix[OF x(1), of ?t] run3_line_prefix[OF x(2), of ?t']
      lead_no_nl[OF x(1), of "NL # ?t"] lead_no_nl[OF x(2), of "NL # ?t'"]
    by simp
qed

lemma rstrip_Nil: "rstrip [] = []"
  by (simp add: rstrip_def)

lemma postprocess_no_blank_ws:
  assumes "list_all (\<lambda>l. l = [] \<or> rstrip l \<noteq> []) (split_on NL s)"
  shows "\<not> has_nl_run3 (postprocess_markdown s)"
proof -
  define s1 where "s1 = sub_newline_runs s"
  define s2 where "s2 = sub_literal ''```\<newline>\<newline>'' ''```\<newline>'' s1"
  define s3 where "s3 = sub_literal ''\<newline>\<newline>```'' ''\<newline>```'' s2"
  define s4 where "s4 = py_join [NL] (map rstrip (split_on NL s3))"
  have "set (split_on NL s1) \<subseteq> set (split_on NL s)"
    unfolding s1_def sub_newline_runs_def using lines_collapse[of 0 s] lines_subset by simp
  moreover have "set (split_on NL s2) \<subseteq> set (split_on NL s1)"
    unfolding s2_def using lines_sub1[of s1] lines_subset by simp
  moreover have "set (split_on NL s3) \<subseteq> set (split_on NL s2)"
    unfolding s3_def using lines_sub2[of s2] lines_subset by simp
  ultimately have sub: "set (split_on NL s3) \<subseteq> set (split_on NL s)" by blast
  have "\<forall>l\<in>set (split_on NL s3). NL \<notin> set l \<and> NL \<notin> set (rstrip l) \<and> (rstrip l = [] \<longleftrightarrow> l = [])"
  proof
    fix l assume l: "l \<in> set (split_on NL s3)"
    have a: "NL \<notin> set l" using l by (rule split_on_no_sep)
    then have b: "NL \<notin> set (rstrip l)" using rstrip_set[of l] by blast
    have "l = [] \<or> rstrip l \<noteq> []" using l sub assms by (auto simp: list_all_iff)
    then have "rstrip l = [] \<longleftrightarrow> l = []" using rstrip_Nil by auto
    with a b show "NL \<notin> set l \<and> NL \<notin> set (rstrip l) \<and> (rstrip l = [] \<longleftrightarrow> l = [])"
      by simp
  qed
  from join_same_blank_lines[OF this]
  have "has_nl_run3 s4 \<longleftrightarrow> has_nl_run3 s3"
    unfolding s4_def by (simp add: join_split)
  moreover have "\<not> has_nl_run3 s3"
    unfolding s3_def s2_def s1_def sub_newline_runs_def
    by (intro run3_sub2 run3_sub1 run3_collapse)
  ultimately have ok4: "\<not> has_nl_run3 s4" by simp
  have "postprocess_markdown s = (if endswith s4 [NL] then s4 else s4 @ [NL])"
    unfolding postprocess_markdown_def Let_def s4_def s3_def s2_def s1_def by simp
  then show ?thesis using ok4 run3_snoc by auto
qed

lemma postprocess_ends_with_newline: "endswith (postprocess_markdown s) [NL]"
  unfolding postprocess_markdown_def Let_def
  by (simp add: endswith_NL)

subsection \<open>Example values\<close>

definition example_note :: note_dict where
  "example_note =
     \<lparr> n_docGuid = Some ''0123456789abcdef'', n_guid = None, n_title = Some ''T'',
       n_dataModified = Some ''2024-01-01'', n_modified = None, n_created = None,
       n_tags = Some (TagList [''a'', ''b'']), n_author = None \<rparr>"

definition example_lib :: pylib where
  "example_lib =
     \<lparr> re_word = (\<lambda>c. c \<in> set ''abcdefghijklmnopqrstuvwxyz0123456789_''),
       b64decode = (\<lambda>s. if s = ''!'' then None else Some (filter (\<lambda>c. c \<noteq> CHR ''='') s)),
       md5_hexdigest = (\<lambda>b. ''d41d8cd98f00b204e9800998ecf8427e'') \<rparr>"

definition example_converter :: html_converter where
  "example_converter =
     \<lparr> conv_add_metadata = True,
       preprocess_html = (\<lambda>h r. if h = ''<bad'' then Inl (LibraryError ''parse'') else Inr (h, [])),
       h2t_handle = (\<lambda>h. Inr h),
       failure_notice = ''conversion failed'' \<rparr>"

subsection \<open>Whitespace normalisation\<close>

text \<open>
  C7, as stated, fails twice. Lines holding only spaces escape the collapse of newline
  runs and are emptied afterwards, so three blank lines in a row remain; and a text that
  already ends in a blank line keeps its two trailing newlines.
\<close>

theorem postprocess_markdown_counterexample:
  "split_on NL (postprocess_markdown ''a\<newline> \<newline> \<newline> \<newline>b'')
     = [''a'', [], [], [], ''b'', []]
   \<and> postprocess_markdown ''a\<newline>\<newline>'' = ''a\<newline>\<newline>''"
  by (simp add: postprocess_markdown_def sub_newline_runs_def emit_run_def rstrip_def
        is_space_def endswith_def)

text \<open>
  C7 (amended): for every input, no line of the output carries trailing whitespace and
  the output ends with a newline; and when no line of the input consists of whitespace
  only (every line is empty or holds a character that is not whitespace), the output
  has no run of three or more newline characters.
\<close>

theorem postprocess_markdown_normalised:
  "list_all (\<lambda>l. rstrip l = l) (split_on NL (postprocess_markdown s))
   \<and> endswith (postprocess_markdown s) [NL]
   \<and> (list_all (\<lambda>l. l = [] \<or> rstrip l \<noteq> []) (split_on NL s) \<longrightarrow>
        \<not> has_nl_run3 (postprocess_markdown s))"
  using postprocess_lines_trimmed postprocess_ends_with_newline postprocess_no_blank_ws
  by blast

theorem postprocess_markdown_normalised_witness:
  "list_all (\<lambda>l. l = [] \<or> rstrip l \<noteq> []) (split_on NL ''a  \<newline>\<newline>\<newline>\<newline>\<newline>b\<newline>\<newline>'')
   \<and> \<not> has_nl_run3 (postprocess_markdown ''a  \<newline>\<newline>\<newline>\<newline>\<newline>b\<newline>\<newline>'')
   \<and> postprocess_markdown ''a  \<newline>\<newline>\<newline>\<newline>\<newline>b\<newline>\<newline>'' = ''a\<newline>\<newline>b\<newline>\<newline>''
   \<and> list_all (\<lambda>l. rstrip l = l) (split_on NL ''a\<newline>\<newline>b\<newline>\<newline>'')
   \<and> endswith ''a\<newline>\<newline>b\<newline>\<newline>'' [NL]"
  using postprocess_markdown_normalised [of "''a  \<newline>\<newline>\<newline>\<newline>\<newline>b\<newline>\<newline>''"]
  by (simp add: postprocess_markdown_def sub_newline_runs_def emit_run_def rstrip_def
        is_space_def endswith_def)

subsection \<open>Front matter\<close>

lemma py_join_Cons: "py_join sep (x # xs) = x @ concat (map (\<lambda>y. sep @ y) xs)"
  by (induction sep xs arbitrary: x rule: py_join.induct) auto

lemma html_front_matter_prefix:
  "startswith (py_join [NL] (html_metadata note_info) @ md) ''---\<newline>title: ''"
  by (simp add: html_metadata_def py_join_Cons startswith_def)

text \<open>
  C10: the converter's \<open>_add_metadata\<close> puts the front-matter block before every
  document, one that starts with the delimiter included, and \<open>convert\<close> calls it
  whenever metadata is enabled; the pass-through handler returns a document that starts
  with the delimiter line as it is, and puts its block before any other.
\<close>

theorem add_metadata_html_unconditional:
  "html_add_metadata md note_info = py_join [NL] (html_metadata note_info) @ md
   \<and> startswith (html_add_metadata md note_info) ''---\<newline>title: ''
   \<and> length md < length (html_add_metadata md note_info)
   \<and> (conv_add_metadata cv \<and> preprocess_html cv html resources = Inr (p, ex)
        \<and> h2t_handle cv p = Inr m \<longrightarrow>
        convert cv html note_info resources
          = Inr (py_join [NL] (html_metadata note_info) @ postprocess_markdown m, ex))
   \<and> (startswith md ''---\<newline>'' \<longrightarrow> direct_add_metadata md note_info = md)
   \<and> (\<not> startswith md ''---\<newline>'' \<longrightarrow>
        direct_add_metadata md note_info = py_join [NL] (direct_metadata note_info) @ md)"
proof -
  have "py_join [NL] (html_metadata note_info) \<noteq> []"
    by (simp add: html_metadata_def py_join_Cons)
  then have "length md < length (html_add_metadata md note_info)"
    by (simp add: html_add_metadata_def)
  then show ?thesis
    using html_front_matter_prefix[of note_info md]
    by (simp add: html_add_metadata_def direct_add_metadata_def convert_def convert_body_def)
qed

theorem add_metadata_html_unconditional_witness:
  "html_add_metadata ''---\<newline>x: 1\<newline>---\<newline>body\<newline>'' example_note
     = ''---\<newline>title: T\<newline>tags: [a, b]\<newline>---\<newline>---\<newline>x: 1\<newline>---\<newline>body\<newline>''
   \<and> direct_add_metadata ''---\<newline>x: 1\<newline>---\<newline>body\<newline>'' example_note
     = ''---\<newline>x: 1\<newline>---\<newline>body\<newline>''
   \<and> direct_add_metadata ''body\<newline>'' example_note
     = ''---\<newline>title: T\<newline>tags: [a, b]\<newline>---\<newline>body\<newline>''
   \<and> convert example_converter ''---\<newline>x'' example_note []
     = Inr (''---\<newline>title: T\<newline>tags: [a, b]\<newline>---\<newline>---\<newline>x\<newline>'', [])"
  using add_metadata_html_unconditional
          [of "''---\<newline>x: 1\<newline>---\<newline>body\<newline>''" example_note example_converter
              "''---\<newline>x''" "[]" "''---\<newline>x''" "[]" "''---\<newline>x''"]
        add_metadata_html_unconditional
          [of "''body\<newline>''" example_note example_converter
              "''---\<newline>x''" "[]" "''---\<newline>x''" "[]" "''---\<newline>x''"]
  by (simp add: example_note_def example_converter_def html_metadata_def direct_metadata_def
        truthy_def truthy_tags_def tags_line_def title_or_untitled_def startswith_def
        postprocess_markdown_def sub_newline_runs_def emit_run_def rstrip_def
        is_space_def endswith_def)

subsection \<open>Inline images\<close>

text \<open>
  C6: the file name of an extracted inline image is \<open>image_\<close>, the first eight
  characters of the hash of the decoded bytes, a dot and the media type; two
  extractions whose decoded bytes have the same hash and whose media types agree
  yield the same name, whatever note or run they belong to.
\<close>

theorem extracted_filename_depends_on_hash_and_type:
  "extract_base64_image L u1 = Some r1 \<Longrightarrow> extract_base64_image L u2 = Some r2 \<Longrightarrow>
   md5_hexdigest L (res_data r1) = md5_hexdigest L (res_data r2) \<Longrightarrow>
   res_image_type r1 = res_image_type r2 \<Longrightarrow>
   res_filename r1 = res_filename r2 \<and>
   res_filename r1
     = ''image_'' @ take 8 (md5_hexdigest L (res_data r1)) @ ''.'' @ res_image_type r1"
  by (auto simp: extract_base64_image_def split: option.splits prod.splits)

theorem extracted_filename_depends_on_hash_and_type_witness:
  "extract_base64_image example_lib ''data:image/png;base64,AAAA==''
     = Some (Base64Image ''image_d41d8cd9.png'' ''AAAA'' ''png'')
   \<and> extract_base64_image example_lib ''data:image/png;base64,AAAA''
     = Some (Base64Image ''image_d41d8cd9.png'' ''AAAA'' ''png'')
   \<and> res_filename (Base64Image ''image_d41d8cd9.png'' ''AAAA'' ''png'')
     = ''image_'' @ take 8 (md5_hexdigest example_lib ''AAAA'') @ ''.png''"
  using extracted_filename_depends_on_hash_and_type
          [of example_lib "''data:image/png;base64,AAAA==''"
              "Base64Image ''image_d41d8cd9.png'' ''AAAA'' ''png''"
              "''data:image/png;base64,AAAA''"
              "Base64Image ''image_d41d8cd9.png'' ''AAAA'' ''png''"]
  by (simp add: extract_base64_image_def match_data_uri_def startswith_def example_lib_def)

subsection \<open>The fallback document\<close>

text \<open>
  C3: \<open>convert\<close> returns a value for every input, whatever its internal steps do; when
  one of them raises, the value is the fallback document (the title as a heading, the
  notice, the original markup inside a fenced block) and an empty resource list.
\<close>

theorem convert_never_raises:
  "(\<exists>r. convert cv html note_info resources = Inr r)
   \<and> (\<forall>e. convert_body cv html note_info resources = Inl e \<longrightarrow>
        convert cv html note_info resources
          = Inr (''# '' @ title_or_untitled note_info @ ''\<newline>\<newline>'' @ failure_notice cv
                 @ ''\<newline>\<newline>```html\<newline>'' @ html @ ''\<newline>```'', []))"
  by (auto simp: convert_def fallback_document_def split: sum.splits)

theorem convert_never_raises_witness:
  "convert_body example_converter ''<bad'' example_note [] = Inl (LibraryError ''parse'')
   \<and> convert example_converter ''<bad'' example_note []
     = Inr (''# T\<newline>\<newline>conversion failed\<newline>\<newline>```html\<newline><bad\<newline>```'', [])"
  using convert_never_raises [of example_converter "''<bad''" example_note "[]"]
  by (simp add: convert_body_def example_converter_def example_note_def title_or_untitled_def)

section \<open>Properties of the local store\<close>

text \<open>A store with one saved note and two attachments, for the examples.\<close>

definition ex_files :: filesystem where
  "ex_files =
     [(Path [] [''out''], Dir), (Path [] [''out'', ''Personal''], Dir),
      (Path [] [''out'', ''Personal'', ''Work''], Dir),
      (Path [] [''out'', ''Personal'', ''Work'', ''Plan.md''], File ''# Plan''),
      (Path [] [''out'', ''Personal'', ''Work'', ''assets''], Dir),
      (Path [] [''out'', ''Personal'', ''Work'', ''assets'', ''a.txt''], File ''old''),
      (Path [] [''out'', ''Personal'', ''Work'', ''assets'', ''a_1.txt''], File ''older'')]"

definition ex_store :: storage where
  "ex_store =
     \<lparr> base_path = parse_path ''out'', preserve_structure = True,
       note_index =
         [(''aaaaaaaa-1111'',
           \<lparr> title = ''Plan'', file_path = ''out/Personal/Work/Plan.md'', team = ''Personal'',
             folder = ''/Work/'', created = None, modified = Some ''2024-01-01'',
             tags = Some (TagList []), format = ''md'', saved_at = ''2024-01-02'' \<rparr>)],
       files = ex_files \<rparr>"

definition ex_note_path :: path where
  "ex_note_path = Path [] [''out'', ''Personal'', ''Work'', ''Plan.md'']"

text \<open>Two more notes titled like the saved one, whose identities share their first eight
  characters.\<close>

definition ex_second :: note_dict where
  "ex_second =
     \<lparr> n_docGuid = Some ''bbbbbbbb-2222-4222-8222-222222222222'',
       n_guid = Some ''bbbbbbbb-2222-4222-8222-222222222222'', n_title = Some ''Plan'',
       n_dataModified = Some ''2024-01-05'', n_modified = Some ''2024-01-05'', n_created = None,
       n_tags = None, n_author = None \<rparr>"

definition ex_third :: note_dict where
  "ex_third =
     \<lparr> n_docGuid = Some ''bbbbbbbb-3333-4333-8333-333333333333'',
       n_guid = Some ''bbbbbbbb-3333-4333-8333-333333333333'', n_title = Some ''Plan'',
       n_dataModified = Some ''2024-01-06'', n_modified = Some ''2024-01-06'', n_created = None,
       n_tags = None, n_author = None \<rparr>"

text \<open>What a store holds: the files with their contents, and the path the index records
  for each identity.\<close>

definition note_files :: "storage \<Rightarrow> (string \<times> string) list" where
  "note_files st = concat (map (\<lambda>(p, n). case n of File c \<Rightarrow> [(str_path p, c)] | Dir \<Rightarrow> []) (files st))"

definition index_paths :: "storage \<Rightarrow> (string \<times> string) list" where
  "index_paths st = map (\<lambda>(g, e). (g, file_path e)) (note_index st)"

text \<open>Two calls of \<open>save_note\<close> in a row, as the downloader makes them for the two notes:
  the returned paths and the store afterwards.\<close>

definition save_two :: "storage \<Rightarrow> (path option \<times> path option \<times> storage) option" where
  "save_two st =
     (case save_note ''2024-02-01T10:00:00'' st ''Personal'' ''/Work/'' ex_second ''second'' ''md'' of
        Inr (p2, st2) \<Rightarrow>
          (case save_note ''2024-02-01T10:00:01'' st2 ''Personal'' ''/Work/'' ex_third ''third'' ''md'' of
             Inr (p3, st3) \<Rightarrow> Some (p2, p3, st3)
           | Inl e \<Rightarrow> None)
      | Inl e \<Rightarrow> None)"

subsection \<open>Attachments\<close>

lemma attachment_loop_free: "\<not> path_exists fs (attachment_loop fs d n e p c)"
proof (induction fs d n e p c rule: attachment_loop.induct)
  case (1 fs d n e p c)
  then show ?case by (subst attachment_loop.simps) simp
qed

lemma free_candidate_exists: "\<exists>k\<ge>c. \<not> path_exists fs (candidate d n e k)"
proof -
  let ?k = "max c (loop_bound fs d n e)"
  have "\<not> path_exists fs (candidate d n e ?k)"
    using loop_bound_gt[of fs d n e ?k] by auto
  then show ?thesis by (intro exI[of _ ?k]) simp
qed

lemma attachment_loop_least:
  "path_exists fs p \<Longrightarrow>
   attachment_loop fs d n e p c
     = candidate d n e (LEAST k. c \<le> k \<and> \<not> path_exists fs (candidate d n e k))"
proof (induction fs d n e p c rule: attachment_loop.induct)
  case (1 fs d n e p c)
  show ?case
  proof (cases "path_exists fs (candidate d n e c)")
    case False
    have "(LEAST k. c \<le> k \<and> \<not> path_exists fs (candidate d n e k)) = c"
      using False by (intro Least_equality) auto
    then show ?thesis
      using False "1.prems"
      by (simp add: attachment_loop.simps[of fs d n e p c]
            attachment_loop.simps[of fs d n e "candidate d n e c" "Suc c"])
  next
    case True
    have "(\<lambda>k. c \<le> k \<and> \<not> path_exists fs (candidate d n e k))
          = (\<lambda>k. c + 1 \<le> k \<and> \<not> path_exists fs (candidate d n e k))"
      using True by (auto simp: fun_eq_iff Suc_le_eq le_less)
    then show ?thesis
      using "1.IH"[OF "1.prems" True] "1.prems"
      by (simp add: attachment_loop.simps[of fs d n e p c])
  qed
qed

lemma map_of_update_other: "q \<noteq> p \<Longrightarrow> map_of (AList.update p v fs) q = map_of fs q"
  by (simp add: update_conv')

lemma write_file_keeps:
  assumes "write_file fs p content = Some fs'" "\<not> path_exists fs p" "path_exists fs q"
  shows "map_of fs' q = map_of fs q"
proof -
  from assms have "fs' = AList.update p (File content) fs" "q \<noteq> p"
    by (auto simp: write_file_def split: if_splits)
  then show ?thesis by (simp add: map_of_update_other)
qed

lemma mkdir_exist_ok_keeps:
  assumes "mkdir_exist_ok fs d = Some fs'" "path_exists fs q"
  shows "map_of fs' q = map_of fs q" "path_exists fs' q"
  using assms
  by (auto simp: mkdir_exist_ok_def path_exists_def map_add_def map_of_append split: if_splits option.splits)

lemma save_attachment_spec:
  assumes mk: "mkdir_exist_ok (files st) (get_attachment_dir note_path) = Some fs1"
    and r: "save_attachment st note_path attachment_name content = (res, st')"
    and name: "splitext (sanitize_filename attachment_name) = (name, ext)"
  shows "(\<forall>q. path_exists (files st) q \<longrightarrow> map_of (files st') q = map_of (files st) q)
       \<and> (\<forall>p. res = Some p \<longrightarrow>
             \<not> path_exists fs1 p
             \<and> files st' = AList.update p (File content) fs1
             \<and> (if path_exists fs1 (join_str (get_attachment_dir note_path) (sanitize_filename attachment_name))
                then p = candidate (get_attachment_dir note_path) name ext
                           (LEAST k. 1 \<le> k \<and> \<not> path_exists fs1 (candidate (get_attachment_dir note_path) name ext k))
                else p = join_str (get_attachment_dir note_path) (sanitize_filename attachment_name)))"
proof -
  let ?d = "get_attachment_dir note_path"
  let ?t = "join_str ?d (sanitize_filename attachment_name)"
  let ?f = "if path_exists fs1 ?t then attachment_loop fs1 ?d name ext ?t 1 else ?t"
  have free: "\<not> path_exists fs1 ?f" using attachment_loop_free by auto
  have sa: "save_attachment st note_path attachment_name content =
          (case write_file fs1 ?f content of
             None \<Rightarrow> (None, st\<lparr>files := fs1\<rparr>)
           | Some fs2 \<Rightarrow> (Some ?f, st\<lparr>files := fs2\<rparr>))"
    using mk name by (simp add: save_attachment_def Let_def split: option.splits)
  have least: "path_exists fs1 ?t \<Longrightarrow>
      ?f = candidate ?d name ext (LEAST k. 1 \<le> k \<and> \<not> path_exists fs1 (candidate ?d name ext k))"
    using attachment_loop_least[of fs1 ?t ?d name ext 1] by simp
  show ?thesis
  proof (cases "write_file fs1 ?f content")
    case None
    with sa r have "res = None" "files st' = fs1" by auto
    then show ?thesis using mkdir_exist_ok_keeps(1)[OF mk] by simp
  next
    case (Some fs2)
    with sa r have res: "res = Some ?f" "files st' = fs2" by auto
    have up: "fs2 = AList.update ?f (File content) fs1"
      using Some by (auto simp: write_file_def split: if_splits)
    have keep: "\<forall>q. path_exists (files st) q \<longrightarrow> map_of fs2 q = map_of (files st) q"
      using write_file_keeps[OF Some free] mkdir_exist_ok_keeps[OF mk] by auto
    show ?thesis
      using res up keep free least by auto
  qed
qed

text \<open>
  C9: \<open>save_attachment\<close> leaves every existing path as it is. When it returns a
  path, that path did not exist before and now holds the content; it is the sanitized
  target when that was free, and otherwise the numbered name with the smallest counter
  from 1 on that did not exist. The content plays no part in the choice.
\<close>

theorem save_attachment_never_overwrites:
  assumes mk: "mkdir_exist_ok (files st) (get_attachment_dir note_path) = Some fs1"
    and r: "save_attachment st note_path attachment_name content = (res, st')"
    and name: "splitext (sanitize_filename attachment_name) = (name, ext)"
  shows "(\<forall>q. path_exists (files st) q \<longrightarrow> map_of (files st') q = map_of (files st) q)
       \<and> (\<forall>p. res = Some p \<longrightarrow>
             \<not> path_exists fs1 p
             \<and> files st' = AList.update p (File content) fs1
             \<and> (if path_exists fs1 (join_str (get_attachment_dir note_path) (sanitize_filename attachment_name))
                then p = candidate (get_attachment_dir note_path) name ext
                           (LEAST k. 1 \<le> k \<and> \<not> path_exists fs1 (candidate (get_attachment_dir note_path) name ext k))
                else p = join_str (get_attachment_dir note_path) (sanitize_filename attachment_name)))"
  using save_attachment_spec[OF mk r name] .

theorem save_attachment_never_overwrites_witness:
  "mkdir_exist_ok (files ex_store) (get_attachment_dir ex_note_path) = Some ex_files
   \<and> save_attachment ex_store ex_note_path ''a.txt'' ''new''
       = (Some (Path [] [''out'', ''Personal'', ''Work'', ''assets'', ''a_2.txt'']),
          ex_store\<lparr>files :=
            ex_files @ [(Path [] [''out'', ''Personal'', ''Work'', ''assets'', ''a_2.txt''], File ''new'')]\<rparr>)
   \<and> splitext (sanitize_filename ''a.txt'') = (''a'', ''.txt'')
   \<and> path_exists ex_files (join_str (get_attachment_dir ex_note_path) (sanitize_filename ''a.txt''))
   \<and> Path [] [''out'', ''Personal'', ''Work'', ''assets'', ''a_2.txt'']
       = candidate (get_attachment_dir ex_note_path) ''a'' ''.txt''
           (LEAST k. 1 \<le> k \<and> \<not> path_exists ex_files (candidate (get_attachment_dir ex_note_path) ''a'' ''.txt'' k))
   \<and> \<not> path_exists ex_files (Path [] [''out'', ''Personal'', ''Work'', ''assets'', ''a_2.txt''])"
proof -
  have h1: "mkdir_exist_ok (files ex_store) (get_attachment_dir ex_note_path) = Some ex_files"
    by code_simp
  have h2: "save_attachment ex_store ex_note_path ''a.txt'' ''new''
       = (Some (Path [] [''out'', ''Personal'', ''Work'', ''assets'', ''a_2.txt'']),
          ex_store\<lparr>files :=
            ex_files @ [(Path [] [''out'', ''Personal'', ''Work'', ''assets'', ''a_2.txt''], File ''new'')]\<rparr>)"
    by code_simp
  have h3: "splitext (sanitize_filename ''a.txt'') = (''a'', ''.txt'')"
    by code_simp
  have h4: "path_exists ex_files (join_str (get_attachment_dir ex_note_path) (sanitize_filename ''a.txt''))"
    by code_simp
  have c: "\<not> path_exists ex_files (Path [] [''out'', ''Personal'', ''Work'', ''assets'', ''a_2.txt''])
      \<and> (if path_exists ex_files (join_str (get_attachment_dir ex_note_path) (sanitize_filename ''a.txt''))
          then Path [] [''out'', ''Personal'', ''Work'', ''assets'', ''a_2.txt'']
                 = candidate (get_attachment_dir ex_note_path) ''a'' ''.txt''
                     (LEAST k. 1 \<le> k \<and> \<not> path_exists ex_files (candidate (get_attachment_dir ex_note_path) ''a'' ''.txt'' k))
          else Path [] [''out'', ''Personal'', ''Work'', ''assets'', ''a_2.txt'']
                 = join_str (get_attachment_dir ex_note_path) (sanitize_filename ''a.txt''))"
    using save_attachment_never_overwrites [OF h1 h2 h3] by blast
  then have d: "Path [] [''out'', ''Personal'', ''Work'', ''assets'', ''a_2.txt'']
                 = candidate (get_attachment_dir ex_note_path) ''a'' ''.txt''
                     (LEAST k. 1 \<le> k \<and> \<not> path_exists ex_files (candidate (get_attachment_dir ex_note_path) ''a'' ''.txt'' k))"
    using h4 by (simp only: if_True)
  show ?thesis
    using c d h1 h2 h3 h4 by blast
qed

subsection \<open>Note paths\<close>

lemma keeps_md: "keeps (last (split_on CHR ''/'' (s @ ''.md'')))"
proof -
  have "split_on CHR ''/'' (s @ ''.md'')
          = butlast (split_on CHR ''/'' s) @ [last (split_on CHR ''/'' s) @ ''.md'']"
    by (rule last_split_append_no_sep) simp
  then show ?thesis by (auto simp: append_eq_Cons_conv)
qed

lemma suffixed_path_neq:
  "join_str d (suffixed_filename (s @ ''.md'') g) \<noteq> join_str d (s @ ''.md'')"
proof -
  obtain name ext where sp: "splitext (s @ ''.md'') = (name, ext)" by (cases "splitext (s @ ''.md'')")
  have eq: "name @ ext = s @ ''.md''" using splitext_append[of "s @ ''.md''"] sp by simp
  have e: "CHR ''/'' \<notin> set ext" "ext = [] \<or> hd ext = CHR ''.''"
    using splitext_ext[of "s @ ''.md''"] sp by auto
  have k: "keeps (last (split_on CHR ''/'' (name @ ext)))" unfolding eq by (rule keeps_md)
  have "join_str d (name @ CHR ''_'' # take 8 g @ ext) \<noteq> join_str d (name @ ext)"
    by (rule join_str_suffix_neq[OF e k])
  then show ?thesis using sp eq by (simp add: suffixed_filename_def)
qed

text \<open>
  What the path derivation guarantees. Let a file exist at the path derived from a
  folder and a sanitized title, and let the index record identity \<open>g1\<close> for that path.
  For the same identity the derived path is that path, unchanged. For a note with the
  same sanitized title and another identity \<open>g2\<close> the derived path carries the suffix
  \<open>_\<close> and the first eight characters of \<open>g2\<close> before the extension, and it differs
  from the path of \<open>g1\<close>.
\<close>

theorem get_note_path_collision:
  assumes mk: "mkdir_parents (files st) (note_dir_of st team_name folder_path) = Some fs1"
    and same: "sanitize_filename title2 = sanitize_filename title1"
    and ex: "path_exists fs1
               (join_str (note_dir_of st team_name folder_path) (sanitize_filename title1 @ ''.md''))"
    and rec: "get_note_guid_by_path (note_index st)
               (str_path (join_str (note_dir_of st team_name folder_path)
                            (sanitize_filename title1 @ ''.md''))) = Some g1"
    and sp: "splitext (sanitize_filename title1 @ ''.md'') = (name, ext)"
  shows "get_note_path st team_name folder_path title1 g1
           = Inr (join_str (note_dir_of st team_name folder_path) (sanitize_filename title1 @ ''.md''), fs1)
       \<and> (g2 \<noteq> g1 \<longrightarrow>
            get_note_path st team_name folder_path title2 g2
              = Inr (join_str (note_dir_of st team_name folder_path)
                       (name @ ''_'' @ take 8 g2 @ ext), fs1)
            \<and> join_str (note_dir_of st team_name folder_path) (name @ ''_'' @ take 8 g2 @ ext)
                \<noteq> join_str (note_dir_of st team_name folder_path) (sanitize_filename title1 @ ''.md''))"
proof -
  have neq: "join_str (note_dir_of st team_name folder_path) (name @ ''_'' @ take 8 g2 @ ext)
                \<noteq> join_str (note_dir_of st team_name folder_path) (sanitize_filename title1 @ ''.md'')"
    using suffixed_path_neq[of "note_dir_of st team_name folder_path" "sanitize_filename title1" g2] sp
    by (simp add: suffixed_filename_def)
  show ?thesis
    using mk same ex rec sp neq
    by (simp add: get_note_path_def Let_def suffixed_filename_def)
qed


theorem get_note_path_collision_witness:
  "mkdir_parents (files ex_store) (note_dir_of ex_store ''Personal'' ''/Work/'') = Some ex_files
   \<and> sanitize_filename ''Plan.'' = sanitize_filename ''Plan''
   \<and> path_exists ex_files
        (join_str (note_dir_of ex_store ''Personal'' ''/Work/'') (sanitize_filename ''Plan'' @ ''.md''))
   \<and> get_note_guid_by_path (note_index ex_store)
        (str_path (join_str (note_dir_of ex_store ''Personal'' ''/Work/'')
                     (sanitize_filename ''Plan'' @ ''.md''))) = Some ''aaaaaaaa-1111''
   \<and> splitext (sanitize_filename ''Plan'' @ ''.md'') = (''Plan'', ''.md'')
   \<and> get_note_path ex_store ''Personal'' ''/Work/'' ''Plan'' ''aaaaaaaa-1111''
       = Inr (Path [] [''out'', ''Personal'', ''Work'', ''Plan.md''], ex_files)
   \<and> get_note_path ex_store ''Personal'' ''/Work/'' ''Plan.'' ''bbbbbbbb-2222''
       = Inr (Path [] [''out'', ''Personal'', ''Work'', ''Plan_bbbbbbbb.md''], ex_files)"
proof -
  have h1: "mkdir_parents (files ex_store) (note_dir_of ex_store ''Personal'' ''/Work/'') = Some ex_files"
    by code_simp
  have h2: "sanitize_filename ''Plan.'' = sanitize_filename ''Plan''"
    by code_simp
  have h3: "path_exists ex_files
        (join_str (note_dir_of ex_store ''Personal'' ''/Work/'') (sanitize_filename ''Plan'' @ ''.md''))"
    by code_simp
  have h4: "get_note_guid_by_path (note_index ex_store)
        (str_path (join_str (note_dir_of ex_store ''Personal'' ''/Work/'')
                     (sanitize_filename ''Plan'' @ ''.md''))) = Some ''aaaaaaaa-1111''"
    by code_simp
  have h5: "splitext (sanitize_filename ''Plan'' @ ''.md'') = (''Plan'', ''.md'')"
    by code_simp
  have j1: "join_str (note_dir_of ex_store ''Personal'' ''/Work/'') (sanitize_filename ''Plan'' @ ''.md'')
              = Path [] [''out'', ''Personal'', ''Work'', ''Plan.md'']"
    by code_simp
  have j2: "join_str (note_dir_of ex_store ''Personal'' ''/Work/'')
              (''Plan'' @ ''_'' @ take 8 ''bbbbbbbb-2222'' @ ''.md'')
              = Path [] [''out'', ''Personal'', ''Work'', ''Plan_bbbbbbbb.md'']"
    by code_simp
  have ne: "''bbbbbbbb-2222'' \<noteq> ''aaaaaaaa-1111''" by simp
  show ?thesis
    using get_note_path_collision [OF h1 h2 h3 h4 h5, of "''bbbbbbbb-2222''"] h1 h2 h3 h4 h5 ne
    unfolding j1 j2 by blast
qed

text \<open>
  The suffixed path is returned without a look at the file system or the index. Two
  identities that are both unlike the recorded one and agree on their first eight
  characters are given one and the same path.
\<close>

lemma get_note_path_same_prefix:
  assumes "mkdir_parents (files st) (note_dir_of st team_name folder_path) = Some fs1"
    and "path_exists fs1 (join_str (note_dir_of st team_name folder_path) (sanitize_filename note_title @ ''.md''))"
    and "get_note_guid_by_path (note_index st)
           (str_path (join_str (note_dir_of st team_name folder_path) (sanitize_filename note_title @ ''.md'')))
         \<notin> {Some g2, Some g3}"
    and "take 8 g2 = take 8 g3"
  shows "get_note_path st team_name folder_path note_title g2
       = get_note_path st team_name folder_path note_title g3"
  using assms by (simp add: get_note_path_def Let_def suffixed_filename_def)

text \<open>
  C2, evaluated: the store holds \<open>Plan.md\<close> of note \<open>aaaaaaaa-1111\<close>. Two further notes
  titled \<open>Plan\<close>, with different identities that both start with \<open>bbbbbbbb\<close>, are saved
  to the same folder. Both saves return \<open>Plan_bbbbbbbb.md\<close>: the file holds the text of
  the later note, the text of the earlier one is gone, and the index records the one
  file for both identities.
\<close>

theorem same_prefix_notes_share_path:
  "map_option (\<lambda>(p2, p3, st3). (map_option str_path p2, map_option str_path p3, note_files st3, index_paths st3))
     (save_two ex_store)
   = Some (Some ''out/Personal/Work/Plan_bbbbbbbb.md'', Some ''out/Personal/Work/Plan_bbbbbbbb.md'',
           [(''out/Personal/Work/Plan.md'', ''# Plan''),
            (''out/Personal/Work/assets/a.txt'', ''old''),
            (''out/Personal/Work/assets/a_1.txt'', ''older''),
            (''out/Personal/Work/Plan_bbbbbbbb.md'', ''third'')],
           [(''aaaaaaaa-1111'', ''out/Personal/Work/Plan.md''),
            (''bbbbbbbb-2222-4222-8222-222222222222'', ''out/Personal/Work/Plan_bbbbbbbb.md''),
            (''bbbbbbbb-3333-4333-8333-333333333333'', ''out/Personal/Work/Plan_bbbbbbbb.md'')])"
  by code_simp

section \<open>Properties of the synchronization engine\<close>

text \<open>
  A source with one folder of three notes: the second has no content, the first has
  one attachment. Notes are stored as they come (no conversion), in full mode.
\<close>

definition ex_listing :: "note_dict list" where
  "ex_listing =
     [\<lparr> n_docGuid = Some ''11111111-aaaa'', n_guid = None, n_title = Some ''A'',
         n_dataModified = Some ''2024-01-01'', n_modified = None, n_created = None,
         n_tags = None, n_author = None \<rparr>,
      \<lparr> n_docGuid = Some ''22222222-bbbb'', n_guid = None, n_title = Some ''B'',
         n_dataModified = Some ''2024-01-02'', n_modified = None, n_created = None,
         n_tags = None, n_author = None \<rparr>,
      \<lparr> n_docGuid = Some ''33333333-cccc'', n_guid = None, n_title = Some ''C'',
         n_dataModified = Some ''2024-01-03'', n_modified = None, n_created = None,
         n_tags = None, n_author = None \<rparr>]"

definition ex_api :: api_client where
  "ex_api =
     \<lparr> get_all_folders = [''/Notes/''],
       get_all_notes_in_folder = (\<lambda>f. if f = ''/Notes/'' then ex_listing else []),
       get_note_info = (\<lambda>g. None),
       download_note = (\<lambda>g. if g = ''22222222-bbbb'' then Some (Some []) else Some (Some ''<p>text</p>'')),
       get_note_html = (\<lambda>g. []),
       get_attachments = (\<lambda>g. if g = ''11111111-aaaa''
                              then [\<lparr> a_guid = Some ''att-1'', a_name = Some ''a.txt'' \<rparr>] else []),
       download_attachment = (\<lambda>g a. ''DATA'') \<rparr>"

definition ex_config :: config where
  "ex_config =
     \<lparr> extract_images = True, add_metadata = True, convert_to_markdown = False,
       incremental = False, exclude_folders = [], download_attachments = True \<rparr>"

definition ex_downloader :: downloader where
  "ex_downloader =
     \<lparr> api_client = ex_api,
       storage = \<lparr> base_path = parse_path ''out'', preserve_structure = True,
                   note_index = [], files = [] \<rparr>,
       converter = None, config = ex_config, kb_name = ''Personal'',
       extract_resources_from_html = (\<lambda>h. []), clock = ''2024-02-01T10:00:00'',
       stats = \<lparr> total_notes = 0, downloaded_notes = 0, failed_notes = 0, skipped_notes = 0,
                 total_attachments = 0, downloaded_attachments = 0, failed_attachments = 0,
                 total_size = 0 \<rparr>,
       failed_items = [] \<rparr>"

text \<open>What a run reports: the counters and the failure list.\<close>

definition run_summary :: "downloader \<Rightarrow> stats \<times> failed_item list" where
  "run_summary d = (stats d, failed_items d)"



text \<open>The same source with content for every note, in incremental mode.\<close>

definition ex_incremental :: downloader where
  "ex_incremental =
     ex_downloader
       \<lparr> api_client := ex_api\<lparr>download_note := (\<lambda>g. Some (Some ''<p>text</p>''))\<rparr>,
         config := ex_config\<lparr>incremental := True\<rparr> \<rparr>"

text \<open>The same source and mode over a store whose index knows the three notes: the first
  without a stored marker, the second with the marker the source lists, the third with an
  empty marker.\<close>

definition ex_unmarked :: downloader where
  "ex_unmarked =
     ex_incremental
       \<lparr> storage :=
           \<lparr> base_path = parse_path ''out'', preserve_structure = True,
             note_index =
               [(''11111111-aaaa'', example_entry None),
                (''22222222-bbbb'', example_entry (Some ''2024-01-02'')),
                (''33333333-cccc'', example_entry (Some []))],
             files = [] \<rparr> \<rparr>"



subsection \<open>Notes without a stored marker\<close>

lemma notes_to_download_bump: "notes_to_download (bump f d) ns = notes_to_download d ns"
  by (induction ns) (simp_all add: bump_def)

lemma notes_to_download_keeps:
  "is_note_modified (note_index (storage d)) (guid_of n) (modified_of n) \<Longrightarrow> n \<in> set ns \<Longrightarrow>
   n \<in> set (fst (notes_to_download d ns))"
  by (induction ns) (auto simp: case_prod_unfold Let_def)

lemma download_folder_pool:
  assumes "fst (notes_to_download d (get_all_notes_in_folder (api_client d) folder_path)) \<noteq> []"
  shows "download_folder d folder_path
       = run_pool
           (bump (\<lambda>s. s\<lparr>skipped_notes := skipped_notes s
                           + snd (notes_to_download d (get_all_notes_in_folder (api_client d) folder_path))\<rparr>)
              (bump (\<lambda>s. s\<lparr>total_notes := total_notes s
                              + length (get_all_notes_in_folder (api_client d) folder_path)\<rparr>) d))
           folder_path
           (fst (notes_to_download d (get_all_notes_in_folder (api_client d) folder_path)))"
proof -
  have "get_all_notes_in_folder (api_client d) folder_path \<noteq> []"
    using assms by auto
  then show ?thesis
    using assms
    by (simp add: download_folder_def Let_def case_prod_unfold notes_to_download_bump)
qed

text \<open>
  C8: an identity present in the index whose entry has no stored marker (missing, or the
  empty string) is reported as modified for every remote marker. So the filter of
  \<open>_download_folder\<close> keeps every listed note with that identity, in incremental mode
  as in full mode, and the folder's run hands the kept notes, this one among them, to
  the worker pool.
\<close>

theorem is_note_modified_without_marker:
  "map_of idx g = Some e \<Longrightarrow> modified e = None \<or> modified e = Some [] \<Longrightarrow>
   is_note_modified idx g m
   \<and> (note_index (storage d) = idx \<and> guid_of note_info = g \<and> note_info \<in> set listed \<longrightarrow>
        note_info \<in> set (fst (notes_to_download d listed)))
   \<and> (note_index (storage d) = idx \<and> guid_of note_info = g
        \<and> note_info \<in> set (get_all_notes_in_folder (api_client d) folder_path) \<longrightarrow>
        download_folder d folder_path
          = run_pool
              (bump (\<lambda>s. s\<lparr>skipped_notes := skipped_notes s
                              + snd (notes_to_download d (get_all_notes_in_folder (api_client d) folder_path))\<rparr>)
                 (bump (\<lambda>s. s\<lparr>total_notes := total_notes s
                                 + length (get_all_notes_in_folder (api_client d) folder_path)\<rparr>) d))
              folder_path
              (fst (notes_to_download d (get_all_notes_in_folder (api_client d) folder_path))))"
proof -
  assume a: "map_of idx g = Some e" "modified e = None \<or> modified e = Some []"
  have m: "is_note_modified idx g m'" for m'
    using a by (auto simp add: is_note_modified_def)
  have k: "note_info \<in> set (fst (notes_to_download d ns))"
    if "note_index (storage d) = idx" "guid_of note_info = g" "note_info \<in> set ns" for ns
    using that m[of "modified_of note_info"] by (intro notes_to_download_keeps) simp_all
  have p: "fst (notes_to_download d (get_all_notes_in_folder (api_client d) folder_path)) \<noteq> []"
    if "note_index (storage d) = idx" "guid_of note_info = g"
       "note_info \<in> set (get_all_notes_in_folder (api_client d) folder_path)"
    using k[OF that] by auto
  show ?thesis
    using m[of m] k[of listed] download_folder_pool[OF p] by blast
qed

theorem is_note_modified_without_marker_witness:
  "is_note_modified [(''g1'', example_entry None)] ''g1'' ''2024-01-01''
   \<and> is_note_modified [(''g1'', example_entry (Some []))] ''g1'' []
   \<and> incremental (config ex_unmarked)
   \<and> map_of (note_index (storage ex_unmarked)) (guid_of (ex_listing ! 0)) = Some (example_entry None)
   \<and> map_of (note_index (storage ex_unmarked)) (guid_of (ex_listing ! 2)) = Some (example_entry (Some []))
   \<and> get_all_notes_in_folder (api_client ex_unmarked) ''/Notes/'' = ex_listing
   \<and> fst (notes_to_download ex_unmarked ex_listing) = [ex_listing ! 0, ex_listing ! 2]
   \<and> ex_listing ! 0 \<in> set (fst (notes_to_download ex_unmarked ex_listing))
   \<and> ex_listing ! 2 \<in> set (fst (notes_to_download ex_unmarked ex_listing))
   \<and> download_folder ex_unmarked ''/Notes/''
       = run_pool
           (bump (\<lambda>s. s\<lparr>skipped_notes := skipped_notes s + 1\<rparr>)
              (bump (\<lambda>s. s\<lparr>total_notes := total_notes s + 3\<rparr>) ex_unmarked))
           ''/Notes/'' [ex_listing ! 0, ex_listing ! 2]"
proof -
  have i: "incremental (config ex_unmarked)" by code_simp
  have a: "map_of (note_index (storage ex_unmarked)) (guid_of (ex_listing ! 0)) = Some (example_entry None)"
    by code_simp
  have c: "map_of (note_index (storage ex_unmarked)) (guid_of (ex_listing ! 2)) = Some (example_entry (Some []))"
    by code_simp
  have l: "get_all_notes_in_folder (api_client ex_unmarked) ''/Notes/'' = ex_listing"
    by code_simp
  have n: "notes_to_download ex_unmarked ex_listing = ([ex_listing ! 0, ex_listing ! 2], 1)"
    by code_simp
  have len: "length ex_listing = 3" by code_simp
  have m0: "ex_listing ! 0 \<in> set ex_listing" and m2: "ex_listing ! 2 \<in> set ex_listing"
    by (simp_all add: ex_listing_def)
  have ma: "modified (example_entry None) = None \<or> modified (example_entry None) = Some []"
    and mc: "modified (example_entry (Some [])) = None \<or> modified (example_entry (Some [])) = Some []"
    by (simp_all add: example_entry_def)
  have g1: "map_of [(''g1'', example_entry None)] ''g1'' = Some (example_entry None)"
    and g2: "map_of [(''g1'', example_entry (Some []))] ''g1'' = Some (example_entry (Some []))"
    by simp_all
  show ?thesis
    using is_note_modified_without_marker [OF g1 ma, of "''2024-01-01''" ex_unmarked "ex_listing ! 0" "[]" "[]"]
          is_note_modified_without_marker [OF g2 mc, of "[]" ex_unmarked "ex_listing ! 0" "[]" "[]"]
          is_note_modified_without_marker
            [OF a ma, of "modified_of (ex_listing ! 0)" ex_unmarked "ex_listing ! 0" ex_listing "''/Notes/''"]
          is_note_modified_without_marker
            [OF c mc, of "modified_of (ex_listing ! 2)" ex_unmarked "ex_listing ! 2" ex_listing "''/Notes/''"]
          i a c m0 m2
    unfolding l n len fst_conv snd_conv by simp
qed

subsection \<open>A note without content\<close>

text \<open>
  C4, evaluated: of three notes the second has no content. The run counts one failed and
  two downloaded notes and none skipped, but its failure list stays empty: the result
  \<open>False\<close> of \<open>_download_note\<close> only increments the counter, and an entry is appended
  only where the worker raised, which it never does.
\<close>

theorem empty_content_run:
  "run_summary (download_all ex_downloader [])
     = (\<lparr> total_notes = 3, downloaded_notes = 2, failed_notes = 1, skipped_notes = 0,
          total_attachments = 1, downloaded_attachments = 1, failed_attachments = 0,
          total_size = 4 \<rparr>, [])"
  by code_simp

subsection \<open>A second run\<close>











end
